theory Spec2Isabelle
  imports Complex_Main
begin

section \<open>Numbers\<close>

text \<open>
  A TypeScript \<open>number\<close> is an IEEE double. Finite doubles are idealised as reals: no
  rounding, no overflow, one zero (taken as \<open>+0\<close>). The three special values are kept,
  since the operations of the program can produce them: a division by zero gives an
  infinity or NaN, \<open>Math.acos\<close> outside \<open>[-1, 1]\<close> gives NaN, and NaN propagates.
  Quantities that the program computes from finite inputs by operations that stay
  finite (sums, products, square roots of sums of squares, \<open>Math.atan2\<close>) are typed
  \<open>real\<close>; quantities that can become special are typed \<open>jsnum\<close>.
\<close>

datatype jsnum = Fin real | PInf | NInf | NaN

fun jneg :: "jsnum \<Rightarrow> jsnum" where
  "jneg (Fin a) = Fin (- a)"
| "jneg PInf = NInf"
| "jneg NInf = PInf"
| "jneg NaN = NaN"

fun jadd :: "jsnum \<Rightarrow> jsnum \<Rightarrow> jsnum" where
  "jadd NaN b = NaN"
| "jadd a NaN = NaN"
| "jadd (Fin a) (Fin b) = Fin (a + b)"
| "jadd PInf NInf = NaN"
| "jadd NInf PInf = NaN"
| "jadd PInf b = PInf"
| "jadd a PInf = PInf"
| "jadd NInf b = NInf"
| "jadd a NInf = NInf"

definition jsub :: "jsnum \<Rightarrow> jsnum \<Rightarrow> jsnum" where
  "jsub a b = jadd a (jneg b)"

fun jmul :: "jsnum \<Rightarrow> jsnum \<Rightarrow> jsnum" where
  "jmul NaN b = NaN"
| "jmul a NaN = NaN"
| "jmul (Fin a) (Fin b) = Fin (a * b)"
| "jmul (Fin a) PInf = (if a = 0 then NaN else if 0 < a then PInf else NInf)"
| "jmul (Fin a) NInf = (if a = 0 then NaN else if 0 < a then NInf else PInf)"
| "jmul PInf (Fin b) = (if b = 0 then NaN else if 0 < b then PInf else NInf)"
| "jmul NInf (Fin b) = (if b = 0 then NaN else if 0 < b then NInf else PInf)"
| "jmul PInf PInf = PInf"
| "jmul NInf NInf = PInf"
| "jmul PInf NInf = NInf"
| "jmul NInf PInf = NInf"

text \<open>Division: a finite nonzero number over zero is an infinity, \<open>0 / 0\<close> is NaN.\<close>

fun jdiv :: "jsnum \<Rightarrow> jsnum \<Rightarrow> jsnum" where
  "jdiv NaN b = NaN"
| "jdiv a NaN = NaN"
| "jdiv (Fin a) (Fin b) =
     (if b \<noteq> 0 then Fin (a / b) else if a = 0 then NaN else if 0 < a then PInf else NInf)"
| "jdiv (Fin a) PInf = Fin 0"
| "jdiv (Fin a) NInf = Fin 0"
| "jdiv PInf (Fin b) = (if 0 \<le> b then PInf else NInf)"
| "jdiv NInf (Fin b) = (if 0 \<le> b then NInf else PInf)"
| "jdiv PInf PInf = NaN"
| "jdiv PInf NInf = NaN"
| "jdiv NInf PInf = NaN"
| "jdiv NInf NInf = NaN"

fun jabs :: "jsnum \<Rightarrow> jsnum" where
  "jabs (Fin a) = Fin \<bar>a\<bar>"
| "jabs PInf = PInf"
| "jabs NInf = PInf"
| "jabs NaN = NaN"

fun jcos :: "jsnum \<Rightarrow> jsnum" where
  "jcos (Fin a) = Fin (cos a)"
| "jcos PInf = NaN"
| "jcos NInf = NaN"
| "jcos NaN = NaN"

fun jacos :: "jsnum \<Rightarrow> jsnum" where
  "jacos (Fin a) = (if - 1 \<le> a \<and> a \<le> 1 then Fin (arccos a) else NaN)"
| "jacos PInf = NaN"
| "jacos NInf = NaN"
| "jacos NaN = NaN"

text \<open>\<open>Math.atan2(y, x)\<close> on finite arguments; \<open>Math.atan2(0, 0)\<close> is \<open>0\<close>.\<close>

definition atan2 :: "real \<Rightarrow> real \<Rightarrow> real" where
  "atan2 y x =
     (if 0 < x then arctan (y / x)
      else if x < 0 then (if 0 \<le> y then arctan (y / x) + pi else arctan (y / x) - pi)
      else if 0 < y then pi / 2
      else if y < 0 then - (pi / 2)
      else 0)"

section \<open>Inverse kinematics: \<open>src/utils/kinematics.ts\<close>\<close>

definition L1 :: real where "L1 = 1"
definition L2 :: real where "L2 = 3"
definition L3 :: real where "L3 = 5 / 2"

record angles =
  base :: jsnum
  shoulder :: jsnum
  elbow :: jsnum

text \<open>The distance \<open>h\<close> from the shoulder pivot, as \<open>solveIK\<close> computes it.\<close>

definition pivotDistance :: "real \<Rightarrow> real \<Rightarrow> real \<Rightarrow> real" where
  "pivotDistance x y z =
     (let r = sqrt (x * x + z * z); dy = y - L1 in sqrt (r * r + dy * dy))"

text \<open>\<open>solveIK\<close>; \<open>None\<close> is the \<open>null\<close> it returns for a target out of reach.\<close>

definition solveIK :: "real \<Rightarrow> real \<Rightarrow> real \<Rightarrow> angles option" where
  "solveIK x y z =
     (let theta1 = atan2 x z;
          r = sqrt (x * x + z * z);
          dy = y - L1;
          h = sqrt (r * r + dy * dy)
      in if h > L2 + L3 then None
         else
           let phi1 = jacos (jdiv (Fin (L2 * L2 + h * h - L3 * L3)) (Fin (2 * L2 * h)));
               phi2 = atan2 dy r;
               theta2 = jsub (Fin (pi / 2)) (jadd phi1 (Fin phi2));
               phi3 = jacos (jdiv (Fin (L2 * L2 + L3 * L3 - h * h)) (Fin (2 * L2 * L3)));
               theta3 = jsub (Fin pi) phi3
           in Some \<lparr>base = Fin theta1, shoulder = theta2, elbow = theta3\<rparr>)"

section \<open>Forward kinematics: the scene graph of \<open>RobotArm\<close>\<close>

type_synonym vec3 = "real \<times> real \<times> real"

definition baseHeight :: real where "baseHeight = 1"
definition upperArmLength :: real where "upperArmLength = 3"
definition forearmLength :: real where "forearmLength = 5 / 2"

text \<open>
  A three.js group with \<open>position p\<close> and \<open>rotation R\<close> places a point \<open>q\<close> of its own
  frame at \<open>p + R q\<close> in its parent's frame. \<open>rotation={[a, 0, 0]}\<close> turns about the X
  axis, \<open>rotation={[0, a, 0]}\<close> about the Y axis.
\<close>

definition rotX :: "real \<Rightarrow> vec3 \<Rightarrow> vec3" where
  "rotX a q = (case q of (x, y, z) \<Rightarrow> (x, y * cos a - z * sin a, y * sin a + z * cos a))"

definition rotY :: "real \<Rightarrow> vec3 \<Rightarrow> vec3" where
  "rotY a q = (case q of (x, y, z) \<Rightarrow> (x * cos a + z * sin a, y, - x * sin a + z * cos a))"

definition translate :: "vec3 \<Rightarrow> vec3 \<Rightarrow> vec3" where
  "translate p q = (case p of (px, py, pz) \<Rightarrow> case q of (x, y, z) \<Rightarrow> (px + x, py + y, pz + z))"

text \<open>
  The world position of the end-effector group of \<open>RobotArm\<close>: the nested groups of
  the component, innermost first.
\<close>

definition endEffector :: "real \<Rightarrow> real \<Rightarrow> real \<Rightarrow> vec3" where
  "endEffector b s e =
     translate (0, 0, 0)
       (rotY b
         (translate (0, baseHeight, 0)
           (rotX s
             (translate (0, upperArmLength, 0)
               (rotX e
                 (translate (0, forearmLength, 0) (0, 0, 0)))))))"

text \<open>
  The pose the scene graph gives the end effector for a set of joint angles. A rotation
  by a non-finite angle has NaN matrix entries, which make every coordinate below it
  NaN: \<open>None\<close> stands for such a position.
\<close>

definition poseOf :: "angles \<Rightarrow> vec3 option" where
  "poseOf a =
     (case (base a, shoulder a, elbow a) of
        (Fin b, Fin s, Fin e) \<Rightarrow> Some (endEffector b s e)
      | _ \<Rightarrow> None)"

section \<open>Vectors (\<open>THREE.Vector3\<close>) and the block map\<close>

definition subVectors :: "vec3 \<Rightarrow> vec3 \<Rightarrow> vec3" where
  "subVectors a b = (case a of (ax, ay, az) \<Rightarrow> case b of (bx, by, bz) \<Rightarrow> (ax - bx, ay - by, az - bz))"

definition vadd :: "vec3 \<Rightarrow> vec3 \<Rightarrow> vec3" where
  "vadd a b = (case a of (ax, ay, az) \<Rightarrow> case b of (bx, by, bz) \<Rightarrow> (ax + bx, ay + by, az + bz))"

definition multiplyScalar :: "vec3 \<Rightarrow> real \<Rightarrow> vec3" where
  "multiplyScalar a k = (case a of (ax, ay, az) \<Rightarrow> (ax * k, ay * k, az * k))"

definition vlength :: "vec3 \<Rightarrow> real" where
  "vlength a = (case a of (ax, ay, az) \<Rightarrow> sqrt (ax * ax + ay * ay + az * az))"

text \<open>\<open>normalize\<close> divides by \<open>length() || 1\<close>: the zero vector stays the zero vector.\<close>

definition normalize :: "vec3 \<Rightarrow> vec3" where
  "normalize a =
     (let l = (if vlength a = 0 then 1 else vlength a)
      in case a of (ax, ay, az) \<Rightarrow> (ax / l, ay / l, az / l))"

definition distanceTo :: "vec3 \<Rightarrow> vec3 \<Rightarrow> real" where
  "distanceTo a b =
     (case a of (ax, ay, az) \<Rightarrow> case b of (bx, by, bz) \<Rightarrow>
        sqrt ((ax - bx) * (ax - bx) + (ay - by) * (ay - by) + (az - bz) * (az - bz)))"

text \<open>
  \<open>blockPositions\<close> is a JavaScript \<open>Map\<close>: \<open>forEach\<close> visits the entries in insertion
  order, \<open>set\<close> overwrites the entry of a key in place or appends a new one.
\<close>

fun mapSet :: "nat \<Rightarrow> vec3 \<Rightarrow> (nat \<times> vec3) list \<Rightarrow> (nat \<times> vec3) list" where
  "mapSet k v [] = [(k, v)]"
| "mapSet k v ((k', v') # m) = (if k = k' then (k, v) # m else (k', v') # mapSet k v m)"

text \<open>Truthiness of a \<open>number | null\<close>: \<open>null\<close> and \<open>0\<close> are falsy.\<close>

fun truthy :: "nat option \<Rightarrow> bool" where
  "truthy None = False"
| "truthy (Some n) = (n \<noteq> 0)"

section \<open>What the two controllers share\<close>

text \<open>\<open>lerp\<close>, the smoothing step, and its use on the three joints with speed \<open>0.1\<close>.\<close>

definition lerp :: "jsnum \<Rightarrow> jsnum \<Rightarrow> jsnum \<Rightarrow> jsnum" where
  "lerp start endv speed = jadd start (jmul (jsub endv start) speed)"

definition lerpAngles :: "angles \<Rightarrow> angles \<Rightarrow> angles" where
  "lerpAngles smooth desired =
     \<lparr>base = lerp (base smooth) (base desired) (Fin (1 / 10)),
      shoulder = lerp (shoulder smooth) (shoulder desired) (Fin (1 / 10)),
      elbow = lerp (elbow smooth) (elbow desired) (Fin (1 / 10))\<rparr>"

record sample =
  time :: nat
  velocity :: jsnum
  torque :: jsnum

text \<open>
  The telemetry sample of a frame: the shoulder's finite difference over \<open>delta\<close>, and
  the load with \<open>1.5\<close> added when a block is carried.
\<close>

definition makeSample :: "nat \<Rightarrow> angles \<Rightarrow> angles \<Rightarrow> real \<Rightarrow> bool \<Rightarrow> sample" where
  "makeSample t newAngles prev delta carrying =
     \<lparr>time = t,
      velocity = jabs (jdiv (jsub (shoulder newAngles) (shoulder prev)) (Fin delta)),
      torque = jabs (jadd (jcos (shoulder newAngles)) (Fin (if carrying then 3 / 2 else 0)))\<rparr>"

text \<open>
  The updater given to \<open>setTelemetryData\<close>: append, then \<open>shift\<close> (drop the first
  element) when the length exceeds the capacity.
\<close>

definition telemetryUpdater :: "nat \<Rightarrow> sample list \<Rightarrow> sample \<Rightarrow> sample list" where
  "telemetryUpdater cap prev x =
     (let newData = prev @ [x] in if length newData > cap then tl newData else newData)"

datatype phase = IDLE | APPROACH | DESCEND | LIFT | MOVE_TO_ZONE | LOWER_TO_DROP | RETRACT

definition zeroAngles :: angles where
  "zeroAngles = \<lparr>base = Fin 0, shoulder = Fin 0, elbow = Fin 0\<rparr>"

section \<open>The controller with one block (\<open>src/unnamed/part_000\<close>)\<close>

text \<open>
  React state (\<open>useState\<close>) and refs (\<open>useRef\<close>) of \<open>RobotController\<close> as one record.
  A callback reads the state of the render it was created in and queues its writes, so
  every operation below reads a snapshot \<open>snap\<close> and writes to the state \<open>s\<close> it returns;
  where two writes go to the same field the later one stays. The component is taken
  to render between any two callbacks, so that each callback sees the writes of the one
  before. The blocks' own physics (\<open>Block\<close>) is not part of the controller: the position
  a block reports is an input.
\<close>

record controller0 =
  ikTarget0 :: vec3
  smoothAngles0 :: angles
  desiredAngles0 :: angles
  prevAngles0 :: angles
  blockPosRef :: vec3
  isGripping0 :: bool
  hasBlock :: bool
  autoPhase0 :: phase
  telemetryData0 :: "sample list"
  frameCount0 :: nat

definition init0 :: controller0 where
  "init0 =
     \<lparr>ikTarget0 = (2, 2, 2), smoothAngles0 = zeroAngles, desiredAngles0 = zeroAngles,
      prevAngles0 = zeroAngles, blockPosRef = (4, 1 / 2, 4), isGripping0 = False,
      hasBlock = False, autoPhase0 = IDLE, telemetryData0 = [], frameCount0 = 0\<rparr>"

definition handleTargetMove0 :: "vec3 \<Rightarrow> controller0 \<Rightarrow> controller0" where
  "handleTargetMove0 newPos s =
     (case newPos of (x, y, z) \<Rightarrow>
        (case solveIK x y z of
           None \<Rightarrow> s\<lparr>ikTarget0 := newPos\<rparr>
         | Some solution \<Rightarrow> s\<lparr>ikTarget0 := newPos, desiredAngles0 := solution\<rparr>))"

text \<open>
  The \<open>switch\<close> of the auto sequence: the destination, the next phase and the state
  after the writes of the case. No case matches \<open>IDLE\<close>.
\<close>

definition autoSwitch0 :: "controller0 \<Rightarrow> controller0 \<Rightarrow> vec3 \<times> phase \<times> controller0" where
  "autoSwitch0 snap s =
     (let threshold = 1 / 10 in
      case blockPosRef s of (bx, by, bz) \<Rightarrow>
      (case autoPhase0 snap of
         IDLE \<Rightarrow> ((0, 0, 0), IDLE, s)
       | APPROACH \<Rightarrow>
           (let targetDest = (bx, by + 2, bz) in
            (targetDest,
             if distanceTo (ikTarget0 snap) targetDest < threshold then DESCEND else APPROACH, s))
       | DESCEND \<Rightarrow>
           (let targetDest = (bx, by, bz) in
            if distanceTo (ikTarget0 snap) targetDest < threshold
            then (targetDest, LIFT, s\<lparr>isGripping0 := True, hasBlock := True\<rparr>)
            else (targetDest, DESCEND, s))
       | LIFT \<Rightarrow>
           (let targetDest = (bx, 3, bz) in
            (targetDest,
             if distanceTo (ikTarget0 snap) targetDest < threshold then MOVE_TO_ZONE else LIFT, s))
       | MOVE_TO_ZONE \<Rightarrow>
           (let targetDest = (- 4, 3, 0) in
            (targetDest,
             if distanceTo (ikTarget0 snap) targetDest < threshold then LOWER_TO_DROP
             else MOVE_TO_ZONE, s))
       | LOWER_TO_DROP \<Rightarrow>
           (let targetDest = (- 4, 4 / 5, 0) in
            if distanceTo (ikTarget0 snap) targetDest < threshold
            then (targetDest, RETRACT, s\<lparr>isGripping0 := False, hasBlock := False\<rparr>)
            else (targetDest, LOWER_TO_DROP, s))
       | RETRACT \<Rightarrow>
           (let targetDest = (0, 3, 0) in
            if distanceTo (ikTarget0 snap) targetDest < threshold
            then (targetDest, RETRACT, s\<lparr>autoPhase0 := IDLE\<rparr>)
            else (targetDest, RETRACT, s))))"

definition autoSequence0 :: "real \<Rightarrow> controller0 \<Rightarrow> controller0 \<Rightarrow> controller0" where
  "autoSequence0 delta snap s =
     (let speed = 6 * delta in
      case autoSwitch0 snap s of (targetDest, nextPhase, s1) \<Rightarrow>
        if autoPhase0 snap \<noteq> IDLE
        then
          (let direction = normalize (subVectors targetDest (ikTarget0 snap));
               moveStep = multiplyScalar direction speed;
               s2 = handleTargetMove0 (vadd (ikTarget0 snap) moveStep) s1
           in if nextPhase \<noteq> autoPhase0 snap then s2\<lparr>autoPhase0 := nextPhase\<rparr> else s2)
        else s1)"

text \<open>The \<open>useFrame\<close> callback: interpolation, telemetry every fifth frame, auto sequence.\<close>

definition frame0 :: "real \<Rightarrow> controller0 \<Rightarrow> controller0" where
  "frame0 delta snap =
     (let newAngles = lerpAngles (smoothAngles0 snap) (desiredAngles0 snap);
          s1 = snap\<lparr>smoothAngles0 := newAngles, frameCount0 := frameCount0 snap + 1\<rparr>;
          s2 = (if frameCount0 s1 mod 5 = 0
                then s1\<lparr>telemetryData0 :=
                       telemetryUpdater 50 (telemetryData0 s1)
                         (makeSample (frameCount0 s1) newAngles (prevAngles0 s1) delta
                            (hasBlock snap))\<rparr>
                else s1);
          s3 = s2\<lparr>prevAngles0 := newAngles\<rparr>
      in if autoPhase0 snap \<noteq> IDLE then autoSequence0 delta snap s3 else s3)"

text \<open>\<open>startAutoSequence\<close>: with a block held it alerts and returns.\<close>

definition startAutoSequence :: "controller0 \<Rightarrow> controller0" where
  "startAutoSequence s = (if hasBlock s then s else s\<lparr>autoPhase0 := APPROACH\<rparr>)"

text \<open>The \<open>toggleGripper\<close> closure passed to \<open>ControlPanel\<close>.\<close>

definition toggleGripper0 :: "controller0 \<Rightarrow> controller0" where
  "toggleGripper0 s =
     (if hasBlock s then s\<lparr>hasBlock := False, isGripping0 := False\<rparr>
      else if distanceTo (ikTarget0 s) (blockPosRef s) < 3 / 2
           then s\<lparr>isGripping0 := True, hasBlock := True\<rparr>
           else s\<lparr>isGripping0 := True\<rparr>)"

text \<open>
  What can happen to the controller: a frame, a drag of the target (the control is
  rendered only in phase \<open>IDLE\<close>), the block reporting its position (\<open>onRest\<close>), and the
  two buttons, which do nothing while \<open>disabled\<close>.
\<close>

datatype event0 = Frame0 real | DragTarget0 vec3 | OnRest vec3 | ClickAutoSeq | ClickGripper0

fun step0 :: "event0 \<Rightarrow> controller0 \<Rightarrow> controller0" where
  "step0 (Frame0 delta) s = frame0 delta s"
| "step0 (DragTarget0 p) s = (if autoPhase0 s = IDLE then handleTargetMove0 p s else s)"
| "step0 (OnRest p) s = s\<lparr>blockPosRef := p\<rparr>"
| "step0 ClickAutoSeq s =
     (if autoPhase0 s \<noteq> IDLE \<or> hasBlock s then s else startAutoSequence s)"
| "step0 ClickGripper0 s = (if autoPhase0 s \<noteq> IDLE then s else toggleGripper0 s)"

fun run0 :: "event0 list \<Rightarrow> controller0 \<Rightarrow> controller0" where
  "run0 [] s = s"
| "run0 (ev # evs) s = run0 evs (step0 ev s)"

section \<open>The controller with several blocks and the teach pendant (\<open>src/unnamed/part_001\<close>)\<close>

datatype mode = MANUAL | AUTO_PICK | REPLAY

record waypoint =
  pos :: vec3
  grip :: bool

record controller =
  ikTarget :: vec3
  smoothAngles :: angles
  desiredAngles :: angles
  isGripping :: bool
  attachedBlockId :: "nat option"
  mode :: mode
  autoPhase :: phase
  resetKey :: nat
  waypoints :: "waypoint list"
  replayIndex :: nat
  telemetryData :: "sample list"
  blockPositions :: "(nat \<times> vec3) list"
  prevAngles :: angles
  frameCount :: nat

definition targetBlockIdForAuto :: nat where
  "targetBlockIdForAuto = 1"

text \<open>The ids of \<open>INITIAL_BLOCKS\<close>; a \<open>Block\<close> is attached when \<open>attachedId === data.id\<close>.\<close>

definition INITIAL_BLOCKS :: "nat list" where
  "INITIAL_BLOCKS = [1, 2]"

definition isAttached :: "controller \<Rightarrow> nat \<Rightarrow> bool" where
  "isAttached s blockId = (attachedBlockId s = Some blockId)"

definition init :: controller where
  "init =
     \<lparr>ikTarget = (2, 2, 2), smoothAngles = zeroAngles, desiredAngles = zeroAngles,
      isGripping = False, attachedBlockId = None, mode = MANUAL, autoPhase = IDLE,
      resetKey = 0, waypoints = [], replayIndex = 0, telemetryData = [],
      blockPositions = [], prevAngles = zeroAngles, frameCount = 0\<rparr>"

definition handleTargetMove :: "vec3 \<Rightarrow> controller \<Rightarrow> controller" where
  "handleTargetMove newPos s =
     (case newPos of (x, y, z) \<Rightarrow>
        (case solveIK x y z of
           None \<Rightarrow> s\<lparr>ikTarget := newPos\<rparr>
         | Some solution \<Rightarrow> s\<lparr>ikTarget := newPos, desiredAngles := solution\<rparr>))"

definition moveTowards :: "vec3 \<Rightarrow> real \<Rightarrow> controller \<Rightarrow> controller \<Rightarrow> controller" where
  "moveTowards dest speed snap s =
     (let dir = normalize (subVectors dest (ikTarget snap))
      in handleTargetMove (vadd (ikTarget snap) (multiplyScalar dir speed)) s)"

text \<open>The \<open>forEach\<close> of \<open>tryGrabClosest\<close>, with its two locals \<open>closestId\<close> and \<open>minDst\<close>.\<close>

fun closestLoop :: "vec3 \<Rightarrow> (nat \<times> vec3) list \<Rightarrow> nat option \<times> real \<Rightarrow> nat option \<times> real" where
  "closestLoop target [] acc = acc"
| "closestLoop target ((blockId, p) # rest) (closestId, minDst) =
     (let dist = distanceTo target p
      in if dist < minDst then closestLoop target rest (Some blockId, dist)
         else closestLoop target rest (closestId, minDst))"

definition tryGrabClosest :: "controller \<Rightarrow> controller \<Rightarrow> controller" where
  "tryGrabClosest snap s =
     (let s1 = s\<lparr>isGripping := True\<rparr>;
          closestId = fst (closestLoop (ikTarget snap) (blockPositions s) (None, 3 / 2))
      in if truthy closestId then s1\<lparr>attachedBlockId := closestId\<rparr> else s1)"

definition toggleGripper :: "controller \<Rightarrow> controller" where
  "toggleGripper s =
     (if truthy (attachedBlockId s) then s\<lparr>attachedBlockId := None, isGripping := False\<rparr>
      else tryGrabClosest s s)"

definition handleReset :: "controller \<Rightarrow> controller" where
  "handleReset s =
     s\<lparr>mode := MANUAL, autoPhase := IDLE, isGripping := False, attachedBlockId := None,
       ikTarget := (2, 2, 2), waypoints := [], resetKey := resetKey s + 1\<rparr>"

definition recordWaypoint :: "controller \<Rightarrow> controller" where
  "recordWaypoint s =
     s\<lparr>waypoints := waypoints s @ [\<lparr>pos = ikTarget s, grip = isGripping s\<rparr>]\<rparr>"

definition toggleReplay :: "controller \<Rightarrow> controller" where
  "toggleReplay s =
     (if mode s = REPLAY then s\<lparr>mode := MANUAL\<rparr>
      else if length (waypoints s) > 0 then s\<lparr>mode := REPLAY, replayIndex := 0\<rparr>
      else s)"

text \<open>
  The \<open>switch\<close> of the auto pick: the destination, the next phase and the state after
  the writes of the case.
\<close>

definition autoSwitch :: "controller \<Rightarrow> controller \<Rightarrow> vec3 \<times> phase \<times> controller" where
  "autoSwitch snap s =
     (let threshold = 1 / 10 in
      case (case map_of (blockPositions s) targetBlockIdForAuto of
              Some p \<Rightarrow> p | None \<Rightarrow> (4, 1 / 2, 4)) of (bx, by, bz) \<Rightarrow>
      (case autoPhase snap of
         IDLE \<Rightarrow> ((0, 0, 0), APPROACH, s)
       | APPROACH \<Rightarrow>
           (let targetDest = (bx, by + 2, bz) in
            (targetDest,
             if distanceTo (ikTarget snap) targetDest < threshold then DESCEND else APPROACH, s))
       | DESCEND \<Rightarrow>
           (let targetDest = (bx, by, bz) in
            if distanceTo (ikTarget snap) targetDest < threshold
            then (targetDest, LIFT,
                  s\<lparr>isGripping := True, attachedBlockId := Some targetBlockIdForAuto\<rparr>)
            else (targetDest, DESCEND, s))
       | LIFT \<Rightarrow>
           (let targetDest = (bx, 3, bz) in
            (targetDest,
             if distanceTo (ikTarget snap) targetDest < threshold then MOVE_TO_ZONE else LIFT, s))
       | MOVE_TO_ZONE \<Rightarrow>
           (let targetDest = (- 4, 3, 2) in
            (targetDest,
             if distanceTo (ikTarget snap) targetDest < threshold then LOWER_TO_DROP
             else MOVE_TO_ZONE, s))
       | LOWER_TO_DROP \<Rightarrow>
           (let targetDest = (- 4, 4 / 5, 2) in
            if distanceTo (ikTarget snap) targetDest < threshold
            then (targetDest, RETRACT, s\<lparr>isGripping := False, attachedBlockId := None\<rparr>)
            else (targetDest, LOWER_TO_DROP, s))
       | RETRACT \<Rightarrow>
           (let targetDest = (0, 3, 0) in
            if distanceTo (ikTarget snap) targetDest < threshold
            then (targetDest, RETRACT, s\<lparr>mode := MANUAL, autoPhase := IDLE\<rparr>)
            else (targetDest, RETRACT, s))))"

definition autoPick :: "real \<Rightarrow> controller \<Rightarrow> controller \<Rightarrow> controller" where
  "autoPick delta snap s =
     (let speed = 6 * delta in
      case autoSwitch snap s of (targetDest, nextPhase, s1) \<Rightarrow>
        if mode snap = AUTO_PICK \<and> autoPhase snap \<noteq> IDLE
        then
          (let s2 = moveTowards targetDest speed snap s1
           in if nextPhase \<noteq> autoPhase snap then s2\<lparr>autoPhase := nextPhase\<rparr> else s2)
        else s1)"

text \<open>
  The replay part of the frame. \<open>waypoints[replayIndex]\<close> past the end is \<open>undefined\<close>,
  and reading its \<open>pos\<close> throws.
\<close>

datatype error = TypeError

definition replayStep :: "real \<Rightarrow> controller \<Rightarrow> controller \<Rightarrow> error + controller" where
  "replayStep delta snap s =
     (if length (waypoints snap) = 0 then Inr (s\<lparr>mode := MANUAL\<rparr>)
      else if replayIndex snap \<ge> length (waypoints snap) then Inl TypeError
      else
        (let targetPoint = waypoints snap ! replayIndex snap;
             s1 = moveTowards (pos targetPoint) (4 * delta) snap s
         in if distanceTo (ikTarget snap) (pos targetPoint) < 1 / 10
            then
              (let s2 = (if grip targetPoint \<noteq> isGripping snap
                         then (if grip targetPoint then tryGrabClosest snap s1
                               else s1\<lparr>isGripping := False, attachedBlockId := None\<rparr>)
                         else s1)
               in Inr (s2\<lparr>replayIndex := (replayIndex snap + 1) mod length (waypoints snap)\<rparr>))
            else Inr s1))"

text \<open>The \<open>useFrame\<close> callback: interpolation, telemetry, auto pick, replay.\<close>

definition frame :: "real \<Rightarrow> controller \<Rightarrow> error + controller" where
  "frame delta snap =
     (let newAngles = lerpAngles (smoothAngles snap) (desiredAngles snap);
          s1 = snap\<lparr>smoothAngles := newAngles, frameCount := frameCount snap + 1\<rparr>;
          s2 = (if frameCount s1 mod 5 = 0
                then s1\<lparr>telemetryData :=
                       telemetryUpdater 40 (telemetryData s1)
                         (makeSample (frameCount s1) newAngles (prevAngles s1) delta
                            (truthy (attachedBlockId snap)))\<rparr>
                else s1);
          s3 = s2\<lparr>prevAngles := newAngles\<rparr>;
          s4 = (if mode snap = AUTO_PICK then autoPick delta snap s3 else s3)
      in if mode snap = REPLAY then replayStep delta snap s4 else Inr s4)"

text \<open>
  What can happen to the controller: a frame, a drag of the target (the control is
  rendered only in mode \<open>MANUAL\<close>), a block of \<open>INITIAL_BLOCKS\<close> reporting its position
  (\<open>onPosUpdate\<close>), and the five buttons, which do nothing while \<open>disabled\<close>. The
  AUTO PICK button sets the mode directly.
\<close>

datatype event =
  Frame real | DragTarget vec3 | PosUpdate nat vec3
  | ClickAutoPick | ClickGripper | ClickReset | ClickRec | ClickPlay

fun step :: "event \<Rightarrow> controller \<Rightarrow> error + controller" where
  "step (Frame delta) s = frame delta s"
| "step (DragTarget p) s = Inr (if mode s = MANUAL then handleTargetMove p s else s)"
| "step (PosUpdate blockId p) s =
     Inr (if blockId \<in> set INITIAL_BLOCKS
          then s\<lparr>blockPositions := mapSet blockId p (blockPositions s)\<rparr> else s)"
| "step ClickAutoPick s = Inr (if mode s \<noteq> MANUAL then s else s\<lparr>mode := AUTO_PICK\<rparr>)"
| "step ClickGripper s = Inr (toggleGripper s)"
| "step ClickReset s = Inr (handleReset s)"
| "step ClickRec s = Inr (if mode s \<noteq> MANUAL then s else recordWaypoint s)"
| "step ClickPlay s = Inr (if length (waypoints s) = 0 then s else toggleReplay s)"

text \<open>A run stops at the first frame that throws.\<close>

fun run :: "event list \<Rightarrow> controller \<Rightarrow> error + controller" where
  "run [] s = Inr s"
| "run (ev # evs) s = (case step ev s of Inl e \<Rightarrow> Inl e | Inr s' \<Rightarrow> run evs s')"

section \<open>Smoothing over a run\<close>

text \<open>
  Each frame moves every joint of \<open>smoothAngles\<close> toward \<open>desiredAngles\<close>; no other event
  writes \<open>smoothAngles\<close>. \<open>ticks\<close> counts the frames of a run, and \<open>desiredHeld j d\<close> says
  that the desired angle of joint \<open>j\<close> is the finite number \<open>d\<close> before every event of
  the run (and that no frame of it throws).
\<close>

fun ticks :: "event list \<Rightarrow> nat" where
  "ticks [] = 0"
| "ticks (Frame delta # evs) = Suc (ticks evs)"
| "ticks (ev # evs) = ticks evs"

fun desiredHeld :: "(angles \<Rightarrow> jsnum) \<Rightarrow> real \<Rightarrow> event list \<Rightarrow> controller \<Rightarrow> bool" where
  "desiredHeld j d [] s = True"
| "desiredHeld j d (ev # evs) s =
     (j (desiredAngles s) = Fin d \<and>
      (case step ev s of Inl e \<Rightarrow> False | Inr s' \<Rightarrow> desiredHeld j d evs s'))"

fun ticks0 :: "event0 list \<Rightarrow> nat" where
  "ticks0 [] = 0"
| "ticks0 (Frame0 delta # evs) = Suc (ticks0 evs)"
| "ticks0 (ev # evs) = ticks0 evs"

fun desiredHeld0 :: "(angles \<Rightarrow> jsnum) \<Rightarrow> real \<Rightarrow> event0 list \<Rightarrow> controller0 \<Rightarrow> bool" where
  "desiredHeld0 j d [] s = True"
| "desiredHeld0 j d (ev # evs) s =
     (j (desiredAngles0 s) = Fin d \<and> desiredHeld0 j d evs (step0 ev s))"

section \<open>Invariants\<close>

text \<open>An attached block implies a closed gripper, in each controller.\<close>

definition gripInv :: "controller \<Rightarrow> bool" where
  "gripInv s = (attachedBlockId s \<noteq> None \<longrightarrow> isGripping s)"

definition gripInv0 :: "controller0 \<Rightarrow> bool" where
  "gripInv0 s = (hasBlock s \<longrightarrow> isGripping0 s)"


text \<open>
  What an event may do to the pair of grip flag and attachment: leave it as it is, or
  end with the gripper closed, or end with nothing attached.
\<close>

definition gripStep :: "controller \<Rightarrow> controller \<Rightarrow> bool" where
  "gripStep s s' =
     ((isGripping s' = isGripping s \<and> attachedBlockId s' = attachedBlockId s) \<or>
      isGripping s' \<or> attachedBlockId s' = None)"

text \<open>
  Only the blocks of \<open>INITIAL_BLOCKS\<close> are known to the controller: the keys of
  \<open>blockPositions\<close> and the attached id are among their ids.
\<close>

definition blockInv :: "controller \<Rightarrow> bool" where
  "blockInv s =
     (set (map fst (blockPositions s)) \<subseteq> set INITIAL_BLOCKS \<and>
      (case attachedBlockId s of None \<Rightarrow> True | Some b \<Rightarrow> b \<in> set INITIAL_BLOCKS))"

section \<open>A state with block 1 held\<close>

text \<open>
  Both blocks have reported their initial positions, the target has been dragged to
  \<open>(3.5, 1, 3.5)\<close>, next to block 1, and the gripper button has attached block 1.
\<close>

definition held :: controller where
  "held =
     handleTargetMove (7 / 2, 1, 7 / 2)
       (init\<lparr>blockPositions := [(1, (4, 1 / 2, 4)), (2, (4, 1 / 2, - 2))]\<rparr>)
     \<lparr>isGripping := True, attachedBlockId := Some 1\<rparr>"

section \<open>A state with the arm commanded to full stretch\<close>

text \<open>
  The target has been dragged to \<open>(0, 1, 5.5)\<close>, at the outer limit straight ahead of the
  shoulder: the desired shoulder angle is \<open>\<pi>/2\<close>, the smoothed one is still \<open>0\<close>.
\<close>

definition stretched :: controller where
  "stretched = handleTargetMove (0, 1, 11 / 2) init"

definition stretched0 :: controller0 where
  "stretched0 = handleTargetMove0 (0, 1, 11 / 2) init0"

section \<open>Replay: arrivals at waypoints\<close>

text \<open>
  The replay part of a frame compares the target of the render with the current
  waypoint; \<open>arrivals\<close> counts the frames of a run of frames at which that test holds.
\<close>

definition arrived :: "controller \<Rightarrow> bool" where
  "arrived s = (distanceTo (ikTarget s) (pos (waypoints s ! replayIndex s)) < 1 / 10)"

fun arrivals :: "real list \<Rightarrow> controller \<Rightarrow> nat" where
  "arrivals [] s = 0"
| "arrivals (delta # deltas) s =
     (case frame delta s of
        Inl e \<Rightarrow> 0
      | Inr s' \<Rightarrow> (if arrived s then 1 else 0) + arrivals deltas s')"

text \<open>The distance left between the target and the current waypoint.\<close>

definition remaining :: "controller \<Rightarrow> real" where
  "remaining s = distanceTo (ikTarget s) (pos (waypoints s ! replayIndex s))"

section \<open>Proofs: the arctangent of two arguments\<close>

lemma sqrt_one_plus_div:
  fixes x y :: real
  assumes "x \<noteq> 0"
  shows "sqrt (1 + (y / x)\<^sup>2) = sqrt (x\<^sup>2 + y\<^sup>2) / \<bar>x\<bar>"
proof -
  have "1 + (y / x)\<^sup>2 = (x\<^sup>2 + y\<^sup>2) / x\<^sup>2"
    using assms by (simp add: field_simps power2_eq_square)
  then show ?thesis
    by (simp add: real_sqrt_divide)
qed

lemma cos_atan2:
  assumes "x \<noteq> 0 \<or> y \<noteq> 0"
  shows "cos (atan2 y x) = x / sqrt (x\<^sup>2 + y\<^sup>2)"
proof -
  consider "0 < x" | "x < 0" | "x = 0" "0 < y" | "x = 0" "y < 0"
    using assms by linarith
  then show ?thesis
  proof cases
    case 1
    then show ?thesis
      by (simp add: atan2_def cos_arctan sqrt_one_plus_div)
  next
    case 2
    then show ?thesis
      by (simp add: atan2_def cos_arctan sqrt_one_plus_div)
  next
    case 3
    then show ?thesis by (simp add: atan2_def)
  next
    case 4
    then show ?thesis by (simp add: atan2_def)
  qed
qed

lemma sin_atan2:
  assumes "x \<noteq> 0 \<or> y \<noteq> 0"
  shows "sin (atan2 y x) = y / sqrt (x\<^sup>2 + y\<^sup>2)"
proof -
  consider "0 < x" | "x < 0" | "x = 0" "0 < y" | "x = 0" "y < 0"
    using assms by linarith
  then show ?thesis
  proof cases
    case 1
    then show ?thesis
      by (simp add: atan2_def sin_arctan sqrt_one_plus_div)
  next
    case 2
    then show ?thesis
      by (simp add: atan2_def sin_arctan sqrt_one_plus_div)
  next
    case 3
    then show ?thesis by (simp add: atan2_def)
  next
    case 4
    then show ?thesis by (simp add: atan2_def)
  qed
qed

section \<open>Proofs: the round trip through the solver and the arm\<close>

lemma endEffector_planar:
  "endEffector b s e =
     ((L2 * sin s + L3 * sin (s + e)) * sin b,
      L1 + (L2 * cos s + L3 * cos (s + e)),
      (L2 * sin s + L3 * sin (s + e)) * cos b)"
  by (simp add: endEffector_def rotX_def rotY_def translate_def baseHeight_def
      upperArmLength_def forearmLength_def L1_def L2_def L3_def sin_add cos_add algebra_simps)

lemma triangle_args:
  assumes "1 / 2 \<le> h" "h \<le> 11 / 2"
  shows "- 1 \<le> (L2 * L2 + h * h - L3 * L3) / (2 * L2 * h)"
    and "(L2 * L2 + h * h - L3 * L3) / (2 * L2 * h) \<le> 1"
    and "- 1 \<le> (L2 * L2 + L3 * L3 - h * h) / (2 * L2 * L3)"
    and "(L2 * L2 + L3 * L3 - h * h) / (2 * L2 * L3) \<le> 1"
proof -
  have hpos: "0 < h" using assms by linarith
  have a: "0 \<le> (h - 1 / 2) * (11 / 2 - h)" using assms by simp
  have b: "0 \<le> (h - 1 / 2) * (h + 1 / 2)" using assms by simp
  have c: "0 \<le> (11 / 2 - h) * (11 / 2 + h)" using assms by simp
  show "- 1 \<le> (L2 * L2 + h * h - L3 * L3) / (2 * L2 * h)"
  proof -
    have "0 \<le> h * h" by simp
    then have "- 1 * (2 * L2 * h) \<le> L2 * L2 + h * h - L3 * L3"
      using hpos unfolding L2_def L3_def by linarith
    moreover have "0 < 2 * L2 * h" using hpos by (simp add: L2_def)
    ultimately show ?thesis by (simp only: pos_le_divide_eq)
  qed
  show "(L2 * L2 + h * h - L3 * L3) / (2 * L2 * h) \<le> 1"
    using hpos a by (simp add: L2_def L3_def field_simps)
  show "- 1 \<le> (L2 * L2 + L3 * L3 - h * h) / (2 * L2 * L3)"
    using c by (simp add: L2_def L3_def field_simps)
  show "(L2 * L2 + L3 * L3 - h * h) / (2 * L2 * L3) \<le> 1"
    using b by (simp add: L2_def L3_def field_simps)
qed

lemma planar_roundtrip:
  fixes r dy h :: real
  assumes h: "1 / 2 \<le> h" "h \<le> 11 / 2"
    and r: "0 \<le> r"
    and hyp: "h = sqrt (r * r + dy * dy)"
  defines "c1 \<equiv> (L2 * L2 + h * h - L3 * L3) / (2 * L2 * h)"
    and "c3 \<equiv> (L2 * L2 + L3 * L3 - h * h) / (2 * L2 * L3)"
  defines "s \<equiv> pi / 2 - (arccos c1 + atan2 dy r)"
    and "e \<equiv> pi - arccos c3"
  shows "L2 * sin s + L3 * sin (s + e) = r"
    and "L2 * cos s + L3 * cos (s + e) = dy"
proof -
  have hpos: "0 < h" using h by linarith
  have c1: "- 1 \<le> c1" "c1 \<le> 1" and c3: "- 1 \<le> c3" "c3 \<le> 1"
    unfolding c1_def c3_def using triangle_args [OF h] by blast+
  define p1 where "p1 = arccos c1"
  define p2 where "p2 = atan2 dy r"
  define p3 where "p3 = arccos c3"
  have C1: "cos p1 = c1" and C3: "cos p3 = c3"
    using c1 c3 by (simp_all add: p1_def p3_def)
  have S1: "sin p1 = sqrt (1 - c1\<^sup>2)" and S3: "sin p3 = sqrt (1 - c3\<^sup>2)"
    using c1 c3 by (simp_all add: p1_def p3_def sin_arccos)
  have hsq: "h * h = r * r + dy * dy"
  proof -
    have "0 \<le> r * r + dy * dy" by simp
    then have "sqrt (r * r + dy * dy) * sqrt (r * r + dy * dy) = r * r + dy * dy"
      by simp
    then show ?thesis using hyp by simp
  qed
  have nz: "r \<noteq> 0 \<or> dy \<noteq> 0"
    using hpos hyp by auto
  have hh: "sqrt (r\<^sup>2 + dy\<^sup>2) = h"
    using hyp by (simp add: power2_eq_square)
  have C2: "h * cos p2 = r" and S2: "h * sin p2 = dy"
    using hpos by (simp_all add: p2_def cos_atan2 [OF nz] sin_atan2 [OF nz] hh)
  have proj: "h * c1 = L2 - L3 * c3"
    using hpos by (simp add: c1_def c3_def L2_def L3_def field_simps)
  have sq: "h\<^sup>2 * (1 - c1\<^sup>2) = L3\<^sup>2 * (1 - c3\<^sup>2)"
  proof -
    have "h\<^sup>2 * (1 - c1\<^sup>2) = h\<^sup>2 - (h * c1)\<^sup>2"
      by (simp add: algebra_simps power2_eq_square)
    also have "\<dots> = h\<^sup>2 - (L2 - L3 * c3)\<^sup>2"
      by (simp add: proj)
    also have "\<dots> = L3\<^sup>2 * (1 - c3\<^sup>2)"
      by (simp add: c3_def L2_def L3_def field_simps power2_eq_square)
    finally show ?thesis .
  qed
  have sine: "h * sin p1 = L3 * sin p3"
  proof -
    have "h * sin p1 = sqrt (h\<^sup>2 * (1 - c1\<^sup>2))"
      using hpos by (simp add: S1 real_sqrt_mult)
    also have "\<dots> = sqrt (L3\<^sup>2 * (1 - c3\<^sup>2))"
      by (simp only: sq)
    also have "\<dots> = L3 * sin p3"
      by (simp add: S3 real_sqrt_mult L3_def)
    finally show ?thesis .
  qed
  define q where "q = p1 + p2"
  have s_eq: "s = pi / 2 - q" and se_eq: "s + e = (pi / 2 - (q + p3)) + pi"
    by (simp_all add: s_def e_def p1_def p2_def p3_def q_def)
  have sin_s: "sin s = cos q" and cos_s: "cos s = sin q"
    unfolding s_eq by (simp_all add: sin_diff cos_diff)
  have sin_se: "sin (s + e) = - cos (q + p3)"
    and cos_se: "cos (s + e) = - sin (q + p3)"
    unfolding se_eq sin_periodic_pi cos_periodic_pi by (simp_all add: sin_diff cos_diff)
  have cq: "h * cos q = r * cos p1 - dy * sin p1"
    and sq': "h * sin q = dy * cos p1 + r * sin p1"
    unfolding q_def cos_add sin_add C2 [symmetric] S2 [symmetric] by (simp_all add: algebra_simps)
  have "L2 * sin s + L3 * sin (s + e) = cos q * (L2 - L3 * cos p3) + sin q * (L3 * sin p3)"
    unfolding sin_s sin_se cos_add by (simp add: algebra_simps)
  also have "\<dots> = (h * cos q) * cos p1 + (h * sin q) * sin p1"
    unfolding C3 proj [symmetric] sine [symmetric] C1 [symmetric] by (simp add: algebra_simps)
  also have "\<dots> = r * (cos p1 * cos p1 + sin p1 * sin p1)"
    unfolding cq sq' by (simp only: algebra_simps)
  also have "\<dots> = r"
    by simp
  finally show "L2 * sin s + L3 * sin (s + e) = r" .
  have "L2 * cos s + L3 * cos (s + e) = sin q * (L2 - L3 * cos p3) - cos q * (L3 * sin p3)"
    unfolding cos_s cos_se sin_add by (simp add: algebra_simps)
  also have "\<dots> = (h * sin q) * cos p1 - (h * cos q) * sin p1"
    unfolding C3 proj [symmetric] sine [symmetric] C1 [symmetric] by (simp add: algebra_simps)
  also have "\<dots> = dy * (cos p1 * cos p1 + sin p1 * sin p1)"
    unfolding cq sq' by (simp only: algebra_simps)
  also have "\<dots> = dy"
    by simp
  finally show "L2 * cos s + L3 * cos (s + e) = dy" .
qed

lemma pivotDistance_sq:
  "pivotDistance x y z = sqrt (x * x + z * z + (y - L1) * (y - L1))"
  by (simp add: pivotDistance_def Let_def)

lemma sqrt_less_iff_sq: "0 \<le> c \<Longrightarrow> sqrt a < c \<longleftrightarrow> a < c * c"
  by (metis abs_of_nonneg real_sqrt_abs2 real_sqrt_less_iff)

lemma solveIK_in_reach:
  assumes lo: "1 / 2 \<le> pivotDistance x y z" and hi: "pivotDistance x y z \<le> 11 / 2"
  shows "solveIK x y z =
     Some \<lparr>base = Fin (atan2 x z),
           shoulder = Fin (pi / 2 -
             (arccos ((L2 * L2 + pivotDistance x y z * pivotDistance x y z - L3 * L3)
                       / (2 * L2 * pivotDistance x y z))
              + atan2 (y - L1) (sqrt (x * x + z * z)))),
           elbow = Fin (pi -
             arccos ((L2 * L2 + L3 * L3 - pivotDistance x y z * pivotDistance x y z)
                      / (2 * L2 * L3)))\<rparr>"
proof -
  define h where "h = pivotDistance x y z"
  have h_eq: "sqrt (sqrt (x * x + z * z) * sqrt (x * x + z * z) + (y - L1) * (y - L1)) = h"
    by (simp add: h_def pivotDistance_def Let_def)
  have h: "1 / 2 \<le> h" "h \<le> 11 / 2" using lo hi by (simp_all add: h_def)
  have nz: "2 * L2 * h \<noteq> 0" "2 * L2 * L3 \<noteq> 0" using h by (simp_all add: L2_def L3_def)
  note t = triangle_args [OF h]
  have not_far: "\<not> h > L2 + L3" using h by (simp add: L2_def L3_def)
  show ?thesis
    unfolding solveIK_def Let_def h_eq h_def [symmetric]
    using not_far nz t by (simp add: jsub_def)
qed

text \<open>
  Claim C1, amended. For every target whose distance \<open>h\<close> from the shoulder pivot
  satisfies \<open>|L2 - L3| \<le> h \<le> L2 + L3\<close> (that is \<open>0.5 \<le> h \<le> 5.5\<close>), \<open>solveIK\<close> returns
  finite joint angles, and forward-evaluating the kinematic chain of \<open>RobotArm\<close> at
  those angles gives the target position; over the reals exactly, hence within every
  tolerance.
\<close>

theorem solveIK_roundtrip:
  assumes lo: "\<bar>L2 - L3\<bar> \<le> pivotDistance x y z" and hi: "pivotDistance x y z \<le> L2 + L3"
  shows "\<exists>a. solveIK x y z = Some a \<and> poseOf a = Some (x, y, z)"
proof -
  define r where "r = sqrt (x * x + z * z)"
  define dy where "dy = y - L1"
  define h where "h = pivotDistance x y z"
  have h: "1 / 2 \<le> h" "h \<le> 11 / 2"
    using lo hi by (simp_all add: h_def L2_def L3_def)
  have r0: "0 \<le> r" by (simp add: r_def)
  have hyp: "h = sqrt (r * r + dy * dy)"
    by (simp add: h_def pivotDistance_def Let_def r_def dy_def)
  define s where "s = pi / 2 - (arccos ((L2 * L2 + h * h - L3 * L3) / (2 * L2 * h)) + atan2 dy r)"
  define e where "e = pi - arccos ((L2 * L2 + L3 * L3 - h * h) / (2 * L2 * L3))"
  define b where "b = atan2 x z"
  have sol: "solveIK x y z = Some \<lparr>base = Fin b, shoulder = Fin s, elbow = Fin e\<rparr>"
    using solveIK_in_reach [of x y z] h
    by (simp add: h_def b_def s_def e_def r_def dy_def)
  have R: "L2 * sin s + L3 * sin (s + e) = r"
    and Y: "L2 * cos s + L3 * cos (s + e) = dy"
    using planar_roundtrip [OF h r0 hyp] by (simp_all add: s_def e_def)
  have X: "r * sin b = x" and Z: "r * cos b = z"
  proof -
    show "r * sin b = x"
    proof (cases "z \<noteq> 0 \<or> x \<noteq> 0")
      case True
      then show ?thesis
        by (simp add: b_def sin_atan2 r_def power2_eq_square add.commute)
    next
      case False
      then show ?thesis by (simp add: r_def)
    qed
    show "r * cos b = z"
    proof (cases "z \<noteq> 0 \<or> x \<noteq> 0")
      case True
      then show ?thesis
        by (simp add: b_def cos_atan2 r_def power2_eq_square add.commute)
    next
      case False
      then show ?thesis by (simp add: r_def)
    qed
  qed
  have "endEffector b s e = (x, y, z)"
    unfolding endEffector_planar R Y X Z by (simp add: dy_def)
  then have "poseOf \<lparr>base = Fin b, shoulder = Fin s, elbow = Fin e\<rparr> = Some (x, y, z)"
    by (simp add: poseOf_def)
  with sol show ?thesis by blast
qed

text \<open>
  Inside the inner limit: both arguments of \<open>Math.acos\<close> are above \<open>1\<close>, or the first
  is a division by zero.
\<close>

lemma solveIK_inner:
  "solveIK 0 1 (1 / 4) = Some \<lparr>base = Fin 0, shoulder = NaN, elbow = NaN\<rparr>"
  by (simp add: solveIK_def Let_def L1_def L2_def L3_def atan2_def jsub_def real_sqrt_divide)

lemma solveIK_pivot:
  "solveIK 0 L1 0 = Some \<lparr>base = Fin 0, shoulder = NaN, elbow = NaN\<rparr>"
  by (simp add: solveIK_def Let_def L1_def L2_def L3_def atan2_def jsub_def)

text \<open>
  Claim C1 as stated fails: the target \<open>(0, 1, 0.25)\<close> is at distance \<open>0.25 \<le> L2 + L3\<close>
  from the pivot, and \<open>solveIK\<close> returns NaN for its shoulder and elbow, which place
  the end effector nowhere.
\<close>

theorem solveIK_inner_counterexample:
  "pivotDistance 0 1 (1 / 4) = 1 / 4 \<and>
   pivotDistance 0 1 (1 / 4) \<le> L2 + L3 \<and>
   solveIK 0 1 (1 / 4) = Some \<lparr>base = Fin 0, shoulder = NaN, elbow = NaN\<rparr> \<and>
   poseOf \<lparr>base = Fin 0, shoulder = NaN, elbow = NaN\<rparr> = None"
  using solveIK_inner
  by (simp add: L1_def L2_def L3_def pivotDistance_def poseOf_def real_sqrt_divide)

text \<open>
  Claim C9, on the code: for the target \<open>(0, L1, 0)\<close>, at distance \<open>h = 0\<close> from the
  shoulder pivot, \<open>solveIK\<close> does not return \<open>null\<close>; it evaluates the law of cosines
  and returns NaN for the shoulder and the elbow, and \<open>handleTargetMove\<close> stores them as
  the desired angles.
\<close>

theorem solveIK_degenerate_eval:
  "pivotDistance 0 L1 0 = 0 \<and>
   solveIK 0 L1 0 = Some \<lparr>base = Fin 0, shoulder = NaN, elbow = NaN\<rparr> \<and>
   desiredAngles (handleTargetMove (0, L1, 0) init) =
     \<lparr>base = Fin 0, shoulder = NaN, elbow = NaN\<rparr> \<and>
   desiredAngles0 (handleTargetMove0 (0, L1, 0) init0) =
     \<lparr>base = Fin 0, shoulder = NaN, elbow = NaN\<rparr>"
  using solveIK_pivot
  by (simp add: pivotDistance_def handleTargetMove_def handleTargetMove0_def)

theorem solveIK_roundtrip_witness:
  "\<bar>L2 - L3\<bar> \<le> pivotDistance 0 1 3 \<and> pivotDistance 0 1 3 \<le> L2 + L3 \<and>
   (\<exists>a. solveIK 0 1 3 = Some a \<and> poseOf a = Some (0, 1, 3))"
proof -
  have h: "pivotDistance 0 1 3 = 3"
    by (simp add: pivotDistance_sq L1_def)
  have lo: "\<bar>L2 - L3\<bar> \<le> pivotDistance 0 1 3" and hi: "pivotDistance 0 1 3 \<le> L2 + L3"
    unfolding h by (simp_all add: L2_def L3_def)
  show ?thesis using solveIK_roundtrip [OF lo hi] lo hi by simp
qed

section \<open>Proofs: smoothing and the telemetry buffer\<close>

lemma lerp_Fin: "lerp (Fin a) (Fin d) (Fin k) = Fin (a + (d - a) * k)"
  by (simp add: lerp_def jsub_def)

text \<open>A NaN on either side stays: smoothing never recovers from a NaN angle.\<close>

lemma lerp_NaN: "lerp a NaN k = NaN"
  by (cases a; cases k) (simp_all add: lerp_def jsub_def)

lemma lerp_from_NaN: "lerp NaN d k = NaN"
  by (simp add: lerp_def)

lemma smooth_limit: "(\<lambda>n. d + (a - d) * (9 / 10) ^ n) \<longlonglongrightarrow> (d::real)"
proof -
  have "(\<lambda>n. (9 / 10 :: real) ^ n) \<longlonglongrightarrow> 0"
    by (rule LIMSEQ_realpow_zero) simp_all
  then have "(\<lambda>n. d + (a - d) * (9 / 10) ^ n) \<longlonglongrightarrow> d + (a - d) * 0"
    by (intro tendsto_add tendsto_mult tendsto_const)
  then show ?thesis by simp
qed

lemma telemetryUpdater_length: "length prev \<le> cap \<Longrightarrow> length (telemetryUpdater cap prev x) \<le> cap"
  by (auto simp: telemetryUpdater_def Let_def)

lemma telemetryUpdater_drop:
  "length prev \<le> cap \<Longrightarrow> telemetryUpdater cap prev x = drop (length prev + 1 - cap) (prev @ [x])"
proof (cases "length prev < cap")
  case True
  then show ?thesis by (simp add: telemetryUpdater_def Let_def)
next
  case False
  assume "length prev \<le> cap"
  with False have eq: "length prev = cap" by simp
  then have "telemetryUpdater cap prev x = tl (prev @ [x])"
    by (simp add: telemetryUpdater_def Let_def)
  also have "\<dots> = drop 1 (prev @ [x])"
    by (cases prev) simp_all
  finally show ?thesis using eq by simp
qed

lemma telemetryUpdater_room: "length prev < cap \<Longrightarrow> telemetryUpdater cap prev x = prev @ [x]"
  by (simp add: telemetryUpdater_def Let_def)

lemma telemetryUpdater_full:
  "length prev = cap \<Longrightarrow> 0 < cap \<Longrightarrow> telemetryUpdater cap prev x = tl prev @ [x]"
  by (cases prev) (auto simp: telemetryUpdater_def Let_def)

section \<open>Proofs: what the operations leave alone\<close>

lemma handleTargetMove_fields [simp]:
  "telemetryData (handleTargetMove p s) = telemetryData s"
  "isGripping (handleTargetMove p s) = isGripping s"
  "attachedBlockId (handleTargetMove p s) = attachedBlockId s"
  "mode (handleTargetMove p s) = mode s"
  "autoPhase (handleTargetMove p s) = autoPhase s"
  "waypoints (handleTargetMove p s) = waypoints s"
  "replayIndex (handleTargetMove p s) = replayIndex s"
  "blockPositions (handleTargetMove p s) = blockPositions s"
  "ikTarget (handleTargetMove p s) = p"
  by (simp_all add: handleTargetMove_def split: prod.splits option.splits)

lemma moveTowards_fields [simp]:
  "telemetryData (moveTowards d v snap s) = telemetryData s"
  "isGripping (moveTowards d v snap s) = isGripping s"
  "attachedBlockId (moveTowards d v snap s) = attachedBlockId s"
  "mode (moveTowards d v snap s) = mode s"
  "autoPhase (moveTowards d v snap s) = autoPhase s"
  "waypoints (moveTowards d v snap s) = waypoints s"
  "replayIndex (moveTowards d v snap s) = replayIndex s"
  "blockPositions (moveTowards d v snap s) = blockPositions s"
  by (simp_all add: moveTowards_def Let_def)

lemma tryGrabClosest_fields [simp]:
  "telemetryData (tryGrabClosest snap s) = telemetryData s"
  "isGripping (tryGrabClosest snap s) = True"
  "mode (tryGrabClosest snap s) = mode s"
  "autoPhase (tryGrabClosest snap s) = autoPhase s"
  "waypoints (tryGrabClosest snap s) = waypoints s"
  "replayIndex (tryGrabClosest snap s) = replayIndex s"
  "blockPositions (tryGrabClosest snap s) = blockPositions s"
  by (simp_all add: tryGrabClosest_def Let_def)

lemma autoSwitch_fields:
  assumes "autoSwitch snap s = (d, np, s1)"
  shows "telemetryData s1 = telemetryData s"
    and "waypoints s1 = waypoints s"
    and "replayIndex s1 = replayIndex s"
    and "blockPositions s1 = blockPositions s"
    and "gripInv s \<Longrightarrow> gripInv s1"
  using assms
  by (auto simp: autoSwitch_def Let_def gripInv_def split: prod.splits phase.splits if_splits)

lemma autoPick_fields:
  "telemetryData (autoPick delta snap s) = telemetryData s"
  "waypoints (autoPick delta snap s) = waypoints s"
  "replayIndex (autoPick delta snap s) = replayIndex s"
  "blockPositions (autoPick delta snap s) = blockPositions s"
  "gripInv s \<Longrightarrow> gripInv (autoPick delta snap s)"
  by (auto simp: autoPick_def Let_def gripInv_def split: prod.splits dest: autoSwitch_fields)

lemma replayStep_fields:
  assumes "replayStep delta snap s = Inr s'"
  shows "telemetryData s' = telemetryData s"
    and "waypoints s' = waypoints s"
    and "blockPositions s' = blockPositions s"
    and "gripInv s \<Longrightarrow> gripInv s'"
  using assms
  by (auto simp: replayStep_def Let_def gripInv_def split: if_splits)

lemma frame_telemetry:
  assumes "frame delta s = Inr s'" and "length (telemetryData s) \<le> 40"
  shows "length (telemetryData s') \<le> 40"
  using assms
  by (auto simp: frame_def Let_def autoPick_fields telemetryUpdater_length
      split: if_splits dest!: replayStep_fields(1))

lemma frame_gripInv:
  assumes "frame delta s = Inr s'" and "gripInv s"
  shows "gripInv s'"
proof -
  define s3 where "s3 = (let newAngles = lerpAngles (smoothAngles s) (desiredAngles s);
          s1 = s\<lparr>smoothAngles := newAngles, frameCount := frameCount s + 1\<rparr>;
          s2 = (if frameCount s1 mod 5 = 0
                then s1\<lparr>telemetryData :=
                       telemetryUpdater 40 (telemetryData s1)
                         (makeSample (frameCount s1) newAngles (prevAngles s1) delta
                            (truthy (attachedBlockId s)))\<rparr>
                else s1) in s2\<lparr>prevAngles := newAngles\<rparr>)"
  have g3: "gripInv s3"
    using assms(2) by (simp add: s3_def Let_def gripInv_def)
  define s4 where "s4 = (if mode s = AUTO_PICK then autoPick delta s s3 else s3)"
  have g4: "gripInv s4"
    using g3 by (simp add: s4_def autoPick_fields)
  have fr: "frame delta s = (if mode s = REPLAY then replayStep delta s s4 else Inr s4)"
    by (simp add: frame_def s4_def s3_def Let_def)
  show ?thesis
  proof (cases "mode s = REPLAY")
    case True
    with fr assms(1) have "replayStep delta s s4 = Inr s'" by simp
    from replayStep_fields(4) [OF this g4] show ?thesis .
  next
    case False
    with fr assms(1) have "s' = s4" by simp
    with g4 show ?thesis by simp
  qed
qed

lemma toggleGripper_gripInv: "gripInv (toggleGripper s)"
  by (simp add: toggleGripper_def gripInv_def)

lemma step_gripInv:
  assumes "step ev s = Inr s'" and "gripInv s"
  shows "gripInv s'"
proof (cases ev)
  case (Frame delta)
  with assms show ?thesis by (auto intro: frame_gripInv)
next
  case ClickGripper
  with assms show ?thesis by (auto simp: toggleGripper_gripInv)
qed (use assms in \<open>auto simp: gripInv_def handleReset_def recordWaypoint_def toggleReplay_def split: if_splits\<close>)

lemma run_gripInv:
  "run evs s = Inr s' \<Longrightarrow> gripInv s \<Longrightarrow> gripInv s'"
proof (induction evs arbitrary: s)
  case Nil
  then show ?case by simp
next
  case (Cons ev evs)
  then show ?case
    by (auto split: sum.splits dest: step_gripInv)
qed

lemma step_telemetry:
  assumes "step ev s = Inr s'" and "length (telemetryData s) \<le> 40"
  shows "length (telemetryData s') \<le> 40"
proof (cases ev)
  case (Frame delta)
  with assms show ?thesis by (auto intro: frame_telemetry)
qed (use assms in \<open>auto simp: toggleGripper_def handleReset_def recordWaypoint_def toggleReplay_def split: if_splits\<close>)

lemma run_telemetry:
  "run evs s = Inr s' \<Longrightarrow> length (telemetryData s) \<le> 40 \<Longrightarrow> length (telemetryData s') \<le> 40"
proof (induction evs arbitrary: s)
  case Nil
  then show ?case by simp
next
  case (Cons ev evs)
  then show ?case
    by (auto split: sum.splits dest: step_telemetry)
qed

section \<open>Proofs: grip flag and attachment change together\<close>

lemma gripStep_same:
  "isGripping s' = isGripping s \<Longrightarrow> attachedBlockId s' = attachedBlockId s \<Longrightarrow> gripStep s s'"
  by (simp add: gripStep_def)

lemma gripStep_cong:
  "isGripping t = isGripping s \<Longrightarrow> attachedBlockId t = attachedBlockId s \<Longrightarrow>
   gripStep t s' = gripStep s s'"
  by (simp add: gripStep_def)

lemma autoSwitch_gripStep:
  assumes "autoSwitch snap s = (d, np, s1)"
  shows "gripStep s s1"
  using assms
  by (auto simp: autoSwitch_def Let_def gripStep_def split: prod.splits phase.splits if_splits)

lemma autoPick_gripStep: "gripStep s (autoPick delta snap s)"
proof -
  obtain d np s1 where sw: "autoSwitch snap s = (d, np, s1)"
    by (cases "autoSwitch snap s") auto
  have "gripStep s s1"
    by (rule autoSwitch_gripStep [OF sw])
  then show ?thesis
    by (simp add: autoPick_def Let_def sw gripStep_def)
qed

lemma replayStep_gripStep:
  assumes "replayStep delta snap s = Inr s'"
  shows "gripStep s s'"
  using assms
  by (auto simp: replayStep_def Let_def gripStep_def split: if_splits)

lemma frame_gripStep:
  assumes "frame delta s = Inr s'"
  shows "gripStep s s'"
proof -
  define s3 where "s3 = (let newAngles = lerpAngles (smoothAngles s) (desiredAngles s);
          s1 = s\<lparr>smoothAngles := newAngles, frameCount := frameCount s + 1\<rparr>;
          s2 = (if frameCount s1 mod 5 = 0
                then s1\<lparr>telemetryData :=
                       telemetryUpdater 40 (telemetryData s1)
                         (makeSample (frameCount s1) newAngles (prevAngles s1) delta
                            (truthy (attachedBlockId s)))\<rparr>
                else s1) in s2\<lparr>prevAngles := newAngles\<rparr>)"
  have same: "isGripping s3 = isGripping s" "attachedBlockId s3 = attachedBlockId s"
    by (simp_all add: s3_def Let_def)
  have fr: "frame delta s =
      (if mode s = REPLAY then replayStep delta s s3
       else Inr (if mode s = AUTO_PICK then autoPick delta s s3 else s3))"
    by (simp add: frame_def s3_def Let_def)
  show ?thesis
  proof (cases "mode s = REPLAY")
    case True
    with fr assms have "replayStep delta s s3 = Inr s'" by simp
    from replayStep_gripStep [OF this] show ?thesis
      by (simp add: gripStep_cong [OF same])
  next
    case False
    with fr assms have s': "s' = (if mode s = AUTO_PICK then autoPick delta s s3 else s3)" by simp
    show ?thesis
    proof (cases "mode s = AUTO_PICK")
      case True
      with s' autoPick_gripStep [of s3 delta s] show ?thesis
        by (simp add: gripStep_cong [OF same])
    next
      case False
      with s' same show ?thesis by (simp add: gripStep_def)
    qed
  qed
qed

lemma step_gripStep:
  assumes "step ev s = Inr s'"
  shows "gripStep s s'"
proof (cases ev)
  case (Frame delta)
  with assms show ?thesis by (auto intro: frame_gripStep)
qed (use assms in \<open>auto simp: gripStep_def toggleGripper_def handleReset_def recordWaypoint_def
      toggleReplay_def split: if_splits\<close>)

section \<open>Proofs: the controller with one block\<close>

lemma handleTargetMove0_fields [simp]:
  "telemetryData0 (handleTargetMove0 p s) = telemetryData0 s"
  "isGripping0 (handleTargetMove0 p s) = isGripping0 s"
  "hasBlock (handleTargetMove0 p s) = hasBlock s"
  "autoPhase0 (handleTargetMove0 p s) = autoPhase0 s"
  "ikTarget0 (handleTargetMove0 p s) = p"
  by (simp_all add: handleTargetMove0_def split: prod.splits option.splits)

lemma autoSwitch0_fields:
  assumes "autoSwitch0 snap s = (d, np, s1)"
  shows "telemetryData0 s1 = telemetryData0 s"
    and "gripInv0 s \<Longrightarrow> gripInv0 s1"
  using assms
  by (auto simp: autoSwitch0_def Let_def gripInv0_def split: prod.splits phase.splits if_splits)

lemma autoSequence0_fields:
  "telemetryData0 (autoSequence0 delta snap s) = telemetryData0 s"
  "gripInv0 s \<Longrightarrow> gripInv0 (autoSequence0 delta snap s)"
  by (auto simp: autoSequence0_def Let_def gripInv0_def split: prod.splits dest: autoSwitch0_fields)

lemma frame0_telemetry:
  "length (telemetryData0 s) \<le> 50 \<Longrightarrow> length (telemetryData0 (frame0 delta s)) \<le> 50"
  by (simp add: frame0_def Let_def autoSequence0_fields telemetryUpdater_length)

lemma frame0_gripInv:
  assumes "gripInv0 s"
  shows "gripInv0 (frame0 delta s)"
proof -
  define s3 where "s3 = (let newAngles = lerpAngles (smoothAngles0 s) (desiredAngles0 s);
          s1 = s\<lparr>smoothAngles0 := newAngles, frameCount0 := frameCount0 s + 1\<rparr>;
          s2 = (if frameCount0 s1 mod 5 = 0
                then s1\<lparr>telemetryData0 :=
                       telemetryUpdater 50 (telemetryData0 s1)
                         (makeSample (frameCount0 s1) newAngles (prevAngles0 s1) delta
                            (hasBlock s))\<rparr>
                else s1) in s2\<lparr>prevAngles0 := newAngles\<rparr>)"
  have g3: "gripInv0 s3"
    using assms by (simp add: s3_def Let_def gripInv0_def)
  have "frame0 delta s = (if autoPhase0 s \<noteq> IDLE then autoSequence0 delta s s3 else s3)"
    by (simp add: frame0_def s3_def Let_def)
  then show ?thesis
    using g3 autoSequence0_fields(2) [OF g3] by simp
qed

lemma step0_telemetry:
  "length (telemetryData0 s) \<le> 50 \<Longrightarrow> length (telemetryData0 (step0 ev s)) \<le> 50"
  by (cases ev) (simp_all add: frame0_telemetry startAutoSequence_def toggleGripper0_def)

lemma step0_gripInv:
  assumes "gripInv0 s"
  shows "gripInv0 (step0 ev s)"
proof (cases ev)
  case (Frame0 delta)
  then show ?thesis using frame0_gripInv [OF assms] by simp
qed (use assms in \<open>auto simp: startAutoSequence_def toggleGripper0_def gripInv0_def\<close>)

lemma run0_telemetry:
  "length (telemetryData0 s) \<le> 50 \<Longrightarrow> length (telemetryData0 (run0 evs s)) \<le> 50"
  by (induction evs arbitrary: s) (simp_all add: step0_telemetry)

lemma run0_gripInv: "gripInv0 s \<Longrightarrow> gripInv0 (run0 evs s)"
  by (induction evs arbitrary: s) (simp_all add: step0_gripInv)

lemma solveIK_far: "L2 + L3 < pivotDistance x y z \<Longrightarrow> solveIK x y z = None"
  by (simp add: solveIK_def pivotDistance_def Let_def)

text \<open>
  Claim C2. For every target whose distance from the shoulder pivot is greater than
  \<open>L2 + L3 = 5.5\<close>, \<open>solveIK\<close> returns \<open>null\<close> and \<open>handleTargetMove\<close>, in both
  controllers, leaves the desired joint angles as they were; the witness is the target
  \<open>(0, 1, 10)\<close>.
\<close>

theorem unreachable_keeps_command:
  assumes "L2 + L3 < pivotDistance x y z"
  shows "solveIK x y z = None \<and>
         desiredAngles (handleTargetMove (x, y, z) s) = desiredAngles s \<and>
         desiredAngles0 (handleTargetMove0 (x, y, z) s0) = desiredAngles0 s0"
  using solveIK_far [OF assms]
  by (simp add: handleTargetMove_def handleTargetMove0_def)

theorem unreachable_keeps_command_witness:
  "L2 + L3 < pivotDistance 0 1 10 \<and> solveIK 0 1 10 = None \<and>
   desiredAngles (handleTargetMove (0, 1, 10) init) = desiredAngles init \<and>
   desiredAngles0 (handleTargetMove0 (0, 1, 10) init0) = desiredAngles0 init0"
proof -
  have far: "L2 + L3 < pivotDistance 0 1 10"
    by (simp add: pivotDistance_sq L1_def L2_def L3_def)
  show ?thesis
    using unreachable_keeps_command [OF far, of init init0] far by simp
qed

section \<open>Proofs: the blocks the controller knows\<close>

lemma mapSet_map_fst:
  "map fst (mapSet k v m) = (if k \<in> set (map fst m) then map fst m else map fst m @ [k])"
proof (induction m)
  case Nil
  show ?case by simp
next
  case (Cons a m)
  obtain k' v' where a: "a = (k', v')" by (cases a)
  show ?case
    unfolding a using Cons by (cases "k = k'") simp_all
qed

lemma mapSet_keys: "set (map fst (mapSet k v m)) = insert k (set (map fst m))"
  unfolding mapSet_map_fst by (simp only: split: if_splits) auto

lemma closestLoop_id:
  "fst (closestLoop t m (c, d)) = c \<or>
   (\<exists>b. b \<in> set (map fst m) \<and> fst (closestLoop t m (c, d)) = Some b)"
proof (induction m arbitrary: c d)
  case Nil
  show ?case by simp
next
  case (Cons bp m)
  obtain b p where bp: "bp = (b, p)" by (cases bp)
  show ?case
  proof (cases "distanceTo t p < d")
    case True
    with Cons [of "Some b" "distanceTo t p"] bp show ?thesis by (auto simp: Let_def)
  next
    case False
    with Cons [of c d] bp show ?thesis by (auto simp: Let_def)
  qed
qed

lemma tryGrabClosest_blockInv:
  assumes "blockInv s"
  shows "blockInv (tryGrabClosest snap s)"
proof -
  from closestLoop_id [of "ikTarget snap" "blockPositions s" None "3 / 2"]
  have "fst (closestLoop (ikTarget snap) (blockPositions s) (None, 3 / 2)) = None \<or>
        (\<exists>b. b \<in> set INITIAL_BLOCKS \<and> fst (closestLoop (ikTarget snap) (blockPositions s) (None, 3 / 2)) = Some b)"
    using assms by (auto simp: blockInv_def)
  then show ?thesis
    using assms by (auto simp: tryGrabClosest_def Let_def blockInv_def)
qed

lemma handleTargetMove_blockInv [simp]: "blockInv (handleTargetMove p s) = blockInv s"
  by (simp add: blockInv_def)

lemma moveTowards_blockInv [simp]: "blockInv (moveTowards d v snap s) = blockInv s"
  by (simp add: blockInv_def)

lemma target_initial: "targetBlockIdForAuto \<in> set INITIAL_BLOCKS"
  by (simp add: targetBlockIdForAuto_def INITIAL_BLOCKS_def)

lemma autoSwitch_attached:
  assumes "autoSwitch snap s = (d, np, s1)"
  shows "attachedBlockId s1 = attachedBlockId s \<or> attachedBlockId s1 = None \<or>
         attachedBlockId s1 = Some targetBlockIdForAuto"
  using assms
  by (auto simp: autoSwitch_def Let_def split: prod.splits phase.splits if_splits)

lemma autoSwitch_blockInv:
  assumes "autoSwitch snap s = (d, np, s1)" and "blockInv s"
  shows "blockInv s1"
  using autoSwitch_attached [OF assms(1)] autoSwitch_fields(4) [OF assms(1)] assms(2) target_initial
  by (auto simp: blockInv_def)

lemma autoPick_blockInv:
  assumes "blockInv s"
  shows "blockInv (autoPick delta snap s)"
proof -
  obtain d np s1 where sw: "autoSwitch snap s = (d, np, s1)"
    by (cases "autoSwitch snap s") auto
  have b1: "blockInv s1"
    by (rule autoSwitch_blockInv [OF sw assms])
  have u: "blockInv (x\<lparr>autoPhase := ph\<rparr>) = blockInv x" for x ph
    by (simp add: blockInv_def)
  show ?thesis
    using b1 by (simp add: autoPick_def Let_def sw u)
qed

lemma replayStep_blockInv:
  assumes "replayStep delta snap s = Inr s'" and "blockInv s"
  shows "blockInv s'"
proof -
  define tp where "tp = waypoints snap ! replayIndex snap"
  define s1 where "s1 = moveTowards (pos tp) (4 * delta) snap s"
  define s2 where "s2 = (if grip tp \<noteq> isGripping snap
                         then (if grip tp then tryGrabClosest snap s1
                               else s1\<lparr>isGripping := False, attachedBlockId := None\<rparr>)
                         else s1)"
  have b1: "blockInv s1"
    using assms(2) by (simp add: s1_def)
  have b2: "blockInv s2"
    using b1 tryGrabClosest_blockInv [OF b1, of snap] by (simp add: s2_def) (simp add: blockInv_def)
  have u: "blockInv (x\<lparr>replayIndex := i\<rparr>) = blockInv x" for x i
    by (simp add: blockInv_def)
  have m: "blockInv (s\<lparr>mode := MANUAL\<rparr>)"
    using assms(2) by (simp add: blockInv_def)
  have "replayStep delta snap s =
     (if length (waypoints snap) = 0 then Inr (s\<lparr>mode := MANUAL\<rparr>)
      else if replayIndex snap \<ge> length (waypoints snap) then Inl TypeError
      else if distanceTo (ikTarget snap) (pos tp) < 1 / 10
           then Inr (s2\<lparr>replayIndex := (replayIndex snap + 1) mod length (waypoints snap)\<rparr>)
           else Inr s1)"
    by (simp add: replayStep_def Let_def tp_def s1_def s2_def)
  with assms(1) show ?thesis
    using b1 b2 u m by (auto split: if_splits)
qed

lemma frame_blockInv:
  assumes "frame delta s = Inr s'" and "blockInv s"
  shows "blockInv s'"
proof -
  define s3 where "s3 = (let newAngles = lerpAngles (smoothAngles s) (desiredAngles s);
          s1 = s\<lparr>smoothAngles := newAngles, frameCount := frameCount s + 1\<rparr>;
          s2 = (if frameCount s1 mod 5 = 0
                then s1\<lparr>telemetryData :=
                       telemetryUpdater 40 (telemetryData s1)
                         (makeSample (frameCount s1) newAngles (prevAngles s1) delta
                            (truthy (attachedBlockId s)))\<rparr>
                else s1) in s2\<lparr>prevAngles := newAngles\<rparr>)"
  have g3: "blockInv s3"
    using assms(2) by (simp add: s3_def Let_def blockInv_def)
  define s4 where "s4 = (if mode s = AUTO_PICK then autoPick delta s s3 else s3)"
  have g4: "blockInv s4"
    using g3 by (simp add: s4_def autoPick_blockInv)
  have fr: "frame delta s = (if mode s = REPLAY then replayStep delta s s4 else Inr s4)"
    by (simp add: frame_def s4_def s3_def Let_def)
  show ?thesis
  proof (cases "mode s = REPLAY")
    case True
    with fr assms(1) have "replayStep delta s s4 = Inr s'" by simp
    from replayStep_blockInv [OF this g4] show ?thesis .
  next
    case False
    with fr assms(1) have "s' = s4" by simp
    with g4 show ?thesis by simp
  qed
qed

lemma toggleGripper_blockInv: "blockInv s \<Longrightarrow> blockInv (toggleGripper s)"
  by (auto simp: toggleGripper_def tryGrabClosest_blockInv) (simp add: blockInv_def)

lemma handleReset_blockInv: "blockInv s \<Longrightarrow> blockInv (handleReset s)"
  by (simp add: handleReset_def blockInv_def)

lemma recordWaypoint_blockInv: "blockInv (recordWaypoint s) = blockInv s"
  by (simp add: recordWaypoint_def blockInv_def)

lemma toggleReplay_blockInv: "blockInv (toggleReplay s) = blockInv s"
  by (simp add: toggleReplay_def blockInv_def)

lemma setMode_blockInv: "blockInv (s\<lparr>mode := m\<rparr>) = blockInv s"
  by (simp add: blockInv_def)

lemma posUpdate_blockInv:
  assumes "blockInv s" and "b \<in> set INITIAL_BLOCKS"
  shows "blockInv (s\<lparr>blockPositions := mapSet b p (blockPositions s)\<rparr>)"
proof -
  have "set (map fst (mapSet b p (blockPositions s))) \<subseteq> set INITIAL_BLOCKS"
    unfolding mapSet_keys using assms by (simp add: blockInv_def)
  then show ?thesis
    using assms(1) by (simp add: blockInv_def)
qed

lemma step_blockInv:
  assumes "step ev s = Inr s'" and "blockInv s"
  shows "blockInv s'"
proof (cases ev)
  case (Frame delta)
  with assms show ?thesis by (auto intro: frame_blockInv)
next
  case (PosUpdate b p)
  with assms show ?thesis
    by (auto simp: posUpdate_blockInv split: if_splits)
qed (use assms in \<open>auto simp: toggleGripper_blockInv handleReset_blockInv
      recordWaypoint_blockInv toggleReplay_blockInv setMode_blockInv split: if_splits\<close>)

lemma run_blockInv:
  "run evs s = Inr s' \<Longrightarrow> blockInv s \<Longrightarrow> blockInv s'"
proof (induction evs arbitrary: s)
  case Nil
  then show ?case by simp
next
  case (Cons ev evs)
  then show ?case
    by (auto split: sum.splits dest: step_blockInv)
qed

lemma init_invs: "gripInv init" "blockInv init" "length (telemetryData init) \<le> 40"
  by (simp_all add: init_def gripInv_def blockInv_def)

lemma init0_invs: "gripInv0 init0" "length (telemetryData0 init0) \<le> 50"
  by (simp_all add: init0_def gripInv0_def)

lemma attached_card: "card {b \<in> set INITIAL_BLOCKS. isAttached s b} \<le> 1"
proof (cases "attachedBlockId s")
  case None
  then show ?thesis by (simp add: isAttached_def)
next
  case (Some a)
  have "{b \<in> set INITIAL_BLOCKS. isAttached s b} \<subseteq> {a}"
    using Some by (auto simp: isAttached_def)
  then have "card {b \<in> set INITIAL_BLOCKS. isAttached s b} \<le> card {a}"
    by (intro card_mono) simp_all
  then show ?thesis by simp
qed

text \<open>
  Claim C7. After every sequence of events at most one block of \<open>INITIAL_BLOCKS\<close> is
  attached: the attachment is one optional id, two attached blocks are the same block,
  and the id is that of a block of \<open>INITIAL_BLOCKS\<close>.
\<close>

theorem at_most_one_attached:
  assumes "run evs init = Inr s"
  shows "card {b \<in> set INITIAL_BLOCKS. isAttached s b} \<le> 1 \<and>
         (\<forall>b c. isAttached s b \<and> isAttached s c \<longrightarrow> b = c) \<and>
         (attachedBlockId s = None \<or> (\<exists>b. b \<in> set INITIAL_BLOCKS \<and> attachedBlockId s = Some b))"
proof -
  have "blockInv s"
    using run_blockInv [OF assms init_invs(2)] .
  then have "attachedBlockId s = None \<or> (\<exists>b. b \<in> set INITIAL_BLOCKS \<and> attachedBlockId s = Some b)"
    by (auto simp: blockInv_def split: option.splits)
  then show ?thesis
    using attached_card [of s] by (auto simp: isAttached_def)
qed

section \<open>Proofs: concrete runs\<close>

lemma lerp_zero: "lerpAngles zeroAngles zeroAngles = zeroAngles"
  by (simp add: lerpAngles_def zeroAngles_def lerp_def jsub_def)

lemma five_frames:
  "run [Frame 1, Frame 1, Frame 1, Frame 1, Frame 0] init =
     Inr (init\<lparr>frameCount := 5,
                telemetryData := [\<lparr>time = 5, velocity = NaN, torque = Fin 1\<rparr>]\<rparr>)"
  by (simp add: frame_def init_def Let_def lerp_zero telemetryUpdater_def makeSample_def)
     (simp add: zeroAngles_def jsub_def)

lemma five_frames0:
  "run0 [Frame0 1, Frame0 1, Frame0 1, Frame0 1, Frame0 0] init0 =
     init0\<lparr>frameCount0 := 5,
            telemetryData0 := [\<lparr>time = 5, velocity = NaN, torque = Fin 1\<rparr>]\<rparr>"
  by (simp add: frame0_def init0_def Let_def lerp_zero telemetryUpdater_def makeSample_def)
     (simp add: zeroAngles_def jsub_def)

lemma distanceTo_less_iff:
  "0 \<le> c \<Longrightarrow>
   distanceTo (ax, ay, az) (bx, by, bz) < c \<longleftrightarrow>
     (ax - bx) * (ax - bx) + (ay - by) * (ay - by) + (az - bz) * (az - bz) < c * c"
  by (simp only: distanceTo_def prod.case sqrt_less_iff_sq)

lemma far_from_blocks:
  "\<not> distanceTo (2, 2, 2) (4, 1 / 2, 4) < 3 / 2"
  "\<not> distanceTo (2, 2, 2) (4, 1 / 2, - 2) < 3 / 2"
  by (subst distanceTo_less_iff; simp)+

lemma near_block: "distanceTo (7 / 2, 1, 7 / 2) (4, 1 / 2, 4) < 3 / 2"
  by (subst distanceTo_less_iff; simp)

lemma empty_grasp:
  "run [PosUpdate 1 (4, 1 / 2, 4), PosUpdate 2 (4, 1 / 2, - 2), ClickGripper] init =
     Inr (init\<lparr>blockPositions := [(1, (4, 1 / 2, 4)), (2, (4, 1 / 2, - 2))],
                isGripping := True\<rparr>)"
  using far_from_blocks
  by (simp add: init_def INITIAL_BLOCKS_def toggleGripper_def tryGrabClosest_def Let_def)

lemma other_block_farther:
  "\<not> distanceTo (7 / 2, 1, 7 / 2) (4, 1 / 2, - 2) < distanceTo (7 / 2, 1, 7 / 2) (4, 1 / 2, 4)"
  by (simp add: distanceTo_def)

lemma held_run:
  "run [PosUpdate 1 (4, 1 / 2, 4), PosUpdate 2 (4, 1 / 2, - 2), DragTarget (7 / 2, 1, 7 / 2),
        ClickGripper] init = Inr held"
  using near_block other_block_farther
  by (simp add: held_def init_def INITIAL_BLOCKS_def toggleGripper_def tryGrabClosest_def Let_def)

lemma held_fields:
  "attachedBlockId held = Some 1" "isGripping held" "mode held = MANUAL" "autoPhase held = IDLE"
  by (simp_all add: held_def init_def)

section \<open>Proofs: telemetry bound, attachment and grip\<close>

text \<open>
  Claim C6. After every sequence of events (so for every number of ticks) the telemetry
  history has at most 40 samples in the controller of \<open>part_001\<close> and at most 50 in the
  controller of \<open>part_000\<close>. An append to a history within capacity keeps the newest
  samples in their order: while there is room nothing is dropped, and at capacity exactly
  the first, oldest sample is dropped.
\<close>

theorem telemetry_bounded_fifo:
  "(\<forall>evs s. run evs init = Inr s \<longrightarrow> length (telemetryData s) \<le> 40) \<and>
   (\<forall>evs. length (telemetryData0 (run0 evs init0)) \<le> 50) \<and>
   (\<forall>cap prev x. length prev \<le> cap \<longrightarrow>
      length (telemetryUpdater cap prev x) \<le> cap \<and>
      telemetryUpdater cap prev x = drop (length prev + 1 - cap) (prev @ [x])) \<and>
   (\<forall>cap prev x. length prev < cap \<longrightarrow> telemetryUpdater cap prev x = prev @ [x]) \<and>
   (\<forall>cap prev x. length prev = cap \<and> 0 < cap \<longrightarrow> telemetryUpdater cap prev x = tl prev @ [x])"
proof (intro conjI allI impI)
  fix evs s
  assume "run evs init = Inr s"
  then show "length (telemetryData s) \<le> 40"
    by (rule run_telemetry) (rule init_invs(3))
next
  fix evs
  show "length (telemetryData0 (run0 evs init0)) \<le> 50"
    by (rule run0_telemetry) (rule init0_invs(2))
next
  fix cap :: nat and prev :: "sample list" and x
  assume "length prev \<le> cap"
  then show "length (telemetryUpdater cap prev x) \<le> cap"
    by (rule telemetryUpdater_length)
next
  fix cap :: nat and prev :: "sample list" and x
  assume "length prev \<le> cap"
  then show "telemetryUpdater cap prev x = drop (length prev + 1 - cap) (prev @ [x])"
    by (rule telemetryUpdater_drop)
next
  fix cap :: nat and prev :: "sample list" and x
  assume "length prev < cap"
  then show "telemetryUpdater cap prev x = prev @ [x]"
    by (rule telemetryUpdater_room)
next
  fix cap :: nat and prev :: "sample list" and x
  assume "length prev = cap \<and> 0 < cap"
  then show "telemetryUpdater cap prev x = tl prev @ [x]"
    by (simp add: telemetryUpdater_full)
qed

theorem telemetry_bounded_fifo_witness:
  "(\<exists>s. run [Frame 1, Frame 1, Frame 1, Frame 1, Frame 0] init = Inr s \<and>
        length (telemetryData s) = 1 \<and> length (telemetryData s) \<le> 40) \<and>
   length (telemetryData0 (run0 [Frame0 1, Frame0 1, Frame0 1, Frame0 1, Frame0 0] init0)) \<le> 50 \<and>
   telemetryUpdater 2
     [\<lparr>time = 5, velocity = Fin 0, torque = Fin 1\<rparr>, \<lparr>time = 10, velocity = Fin 0, torque = Fin 1\<rparr>]
     \<lparr>time = 15, velocity = Fin 0, torque = Fin 1\<rparr> =
     [\<lparr>time = 10, velocity = Fin 0, torque = Fin 1\<rparr>, \<lparr>time = 15, velocity = Fin 0, torque = Fin 1\<rparr>] \<and>
   telemetryUpdater 2 [\<lparr>time = 5, velocity = Fin 0, torque = Fin 1\<rparr>]
     \<lparr>time = 10, velocity = Fin 0, torque = Fin 1\<rparr> =
     [\<lparr>time = 5, velocity = Fin 0, torque = Fin 1\<rparr>, \<lparr>time = 10, velocity = Fin 0, torque = Fin 1\<rparr>]"
proof -
  note t = telemetry_bounded_fifo
  note t1 = t [THEN conjunct1, rule_format]
  note t2 = t [THEN conjunct2, THEN conjunct1, rule_format]
  note t4 = t [THEN conjunct2, THEN conjunct2, THEN conjunct2, THEN conjunct1, rule_format]
  note t5 = t [THEN conjunct2, THEN conjunct2, THEN conjunct2, THEN conjunct2, rule_format]
  have c: "telemetryUpdater 2 [p, q] x = [q, x]" for p q x
    using t5 [of "[p, q]" 2 x] by simp
  have d: "telemetryUpdater 2 [p] x = [p, x]" for p x
    using t4 [of "[p]" 2 x] by simp
  have e: "\<exists>s. run [Frame 1, Frame 1, Frame 1, Frame 1, Frame 0] init = Inr s \<and>
        length (telemetryData s) = 1 \<and> length (telemetryData s) \<le> 40"
  proof (intro exI conjI)
    show "run [Frame 1, Frame 1, Frame 1, Frame 1, Frame 0] init =
      Inr (init\<lparr>frameCount := 5,
                telemetryData := [\<lparr>time = 5, velocity = NaN, torque = Fin 1\<rparr>]\<rparr>)"
      by (rule five_frames)
    show "length (telemetryData (init\<lparr>frameCount := 5,
                telemetryData := [\<lparr>time = 5, velocity = NaN, torque = Fin 1\<rparr>]\<rparr>)) = 1"
      by simp
    show "length (telemetryData (init\<lparr>frameCount := 5,
                telemetryData := [\<lparr>time = 5, velocity = NaN, torque = Fin 1\<rparr>]\<rparr>)) \<le> 40"
      by (rule t1 [OF five_frames])
  qed
  show ?thesis
    by (intro conjI e c d t2)
qed

theorem at_most_one_attached_witness:
  "run [PosUpdate 1 (4, 1 / 2, 4), PosUpdate 2 (4, 1 / 2, - 2), DragTarget (7 / 2, 1, 7 / 2),
        ClickGripper] init = Inr held \<and>
   isAttached held 1 \<and> \<not> isAttached held 2 \<and>
   card {b \<in> set INITIAL_BLOCKS. isAttached held b} \<le> 1"
  using at_most_one_attached [OF held_run] held_run held_fields
  by (simp add: isAttached_def)

text \<open>
  Claim C10. In every state reached from the initial one an attached block implies that
  the gripper flag is set, and every event preserves this from any state: an event
  leaves the grip flag and the attachment as they are, or ends with the flag set, or ends
  with nothing attached. The same invariant holds for \<open>hasBlock\<close> in the controller with
  one block. The converse state, gripper closed and nothing attached, is reached.
\<close>

theorem attached_implies_gripping:
  "(\<forall>evs s. run evs init = Inr s \<longrightarrow> (attachedBlockId s \<noteq> None \<longrightarrow> isGripping s)) \<and>
   (\<forall>ev s s'. (attachedBlockId s \<noteq> None \<longrightarrow> isGripping s) \<and> step ev s = Inr s' \<longrightarrow>
       (attachedBlockId s' \<noteq> None \<longrightarrow> isGripping s')) \<and>
   (\<forall>ev s s'. step ev s = Inr s' \<longrightarrow>
       (isGripping s' = isGripping s \<and> attachedBlockId s' = attachedBlockId s) \<or>
       isGripping s' \<or> attachedBlockId s' = None) \<and>
   (\<forall>evs. hasBlock (run0 evs init0) \<longrightarrow> isGripping0 (run0 evs init0)) \<and>
   (\<exists>evs s. run evs init = Inr s \<and> isGripping s \<and> attachedBlockId s = None)"
proof (intro conjI allI impI)
  fix evs s
  assume "run evs init = Inr s" and "attachedBlockId s \<noteq> None"
  then show "isGripping s"
    using run_gripInv [OF _ init_invs(1)] by (simp add: gripInv_def)
next
  fix ev s s'
  assume "(attachedBlockId s \<noteq> None \<longrightarrow> isGripping s) \<and> step ev s = Inr s'"
    and "attachedBlockId s' \<noteq> None"
  then show "isGripping s'"
    using step_gripInv [of ev s s'] by (simp add: gripInv_def)
next
  fix ev s s'
  assume "step ev s = Inr s'"
  then show "(isGripping s' = isGripping s \<and> attachedBlockId s' = attachedBlockId s) \<or>
       isGripping s' \<or> attachedBlockId s' = None"
    using step_gripStep [of ev s s'] by (simp add: gripStep_def)
next
  fix evs
  assume "hasBlock (run0 evs init0)"
  then show "isGripping0 (run0 evs init0)"
    using run0_gripInv [OF init0_invs(1), of evs] by (simp add: gripInv0_def)
next
  show "\<exists>evs s. run evs init = Inr s \<and> isGripping s \<and> attachedBlockId s = None"
    using empty_grasp by (intro exI conjI, assumption) (simp_all add: init_def)
qed

theorem attached_implies_gripping_witness:
  "run [PosUpdate 1 (4, 1 / 2, 4), PosUpdate 2 (4, 1 / 2, - 2), DragTarget (7 / 2, 1, 7 / 2),
        ClickGripper] init = Inr held \<and>
   attachedBlockId held = Some 1 \<and> isGripping held"
proof -
  note g = attached_implies_gripping [THEN conjunct1, rule_format]
  from g [OF held_run] held_run held_fields show ?thesis by simp
qed

text \<open>
  In \<open>part_001\<close> the switch maps phase \<open>IDLE\<close> to \<open>APPROACH\<close>, but the phase is written
  only under \<open>autoPhase !== 'IDLE'\<close>: a frame in mode \<open>AUTO_PICK\<close> and phase \<open>IDLE\<close> keeps
  both and moves nothing.
\<close>

lemma autoPick_idle_stays:
  assumes "mode s = AUTO_PICK" and "autoPhase s = IDLE"
  shows "\<exists>s'. frame delta s = Inr s' \<and> mode s' = AUTO_PICK \<and> autoPhase s' = IDLE \<and>
           ikTarget s' = ikTarget s \<and> isGripping s' = isGripping s \<and>
           attachedBlockId s' = attachedBlockId s"
  using assms by (simp add: frame_def Let_def autoPick_def autoSwitch_def split: prod.splits)

text \<open>In \<open>part_000\<close> the start of the sequence with a block held changes nothing.\<close>

lemma startAutoSequence_rejects: "hasBlock s \<Longrightarrow> startAutoSequence s = s \<and> step0 ClickAutoSeq s = s"
  by (simp add: startAutoSequence_def)

text \<open>
  Claim C4, on the code of \<open>part_001\<close>: the blocks report their positions, the target
  is dragged next to block 1 and the gripper button attaches it. The mode is still
  \<open>MANUAL\<close>, so the AUTO PICK button is enabled, and clicking it is not rejected: it
  switches the mode to \<open>AUTO_PICK\<close> with the block attached; the phase stays \<open>IDLE\<close>.
\<close>

theorem autoPick_starts_while_attached:
  "run [PosUpdate 1 (4, 1 / 2, 4), PosUpdate 2 (4, 1 / 2, - 2), DragTarget (7 / 2, 1, 7 / 2),
        ClickGripper] init = Inr held \<and>
   attachedBlockId held = Some 1 \<and> mode held = MANUAL \<and> autoPhase held = IDLE \<and>
   step ClickAutoPick held = Inr (held\<lparr>mode := AUTO_PICK\<rparr>) \<and>
   held\<lparr>mode := AUTO_PICK\<rparr> \<noteq> held"
proof -
  have "mode (held\<lparr>mode := AUTO_PICK\<rparr>) \<noteq> mode held"
    by (simp add: held_fields)
  then have "held\<lparr>mode := AUTO_PICK\<rparr> \<noteq> held"
    by metis
  then show ?thesis
    using held_run held_fields by simp
qed

section \<open>Proofs: telemetry samples\<close>

lemma makeSample_Fin:
  assumes "delta \<noteq> 0" and "shoulder n = Fin a" and "shoulder p = Fin b"
  shows "makeSample t n p delta c =
     \<lparr>time = t, velocity = Fin \<bar>(a - b) / delta\<bar>,
      torque = Fin \<bar>cos a + (if c then 3 / 2 else 0)\<bar>\<rparr>"
  using assms by (simp add: makeSample_def jsub_def)

lemma lerpAngles_shoulder:
  "shoulder sm = Fin a \<Longrightarrow> shoulder de = Fin d \<Longrightarrow>
   shoulder (lerpAngles sm de) = Fin (a + (d - a) * (1 / 10))"
  by (simp add: lerpAngles_def lerp_Fin)

lemma frame_telemetry_sample:
  assumes "frame delta s = Inr s'" and "(frameCount s + 1) mod 5 = 0"
  shows "telemetryData s' =
     telemetryUpdater 40 (telemetryData s)
       (makeSample (frameCount s + 1) (lerpAngles (smoothAngles s) (desiredAngles s))
          (prevAngles s) delta (truthy (attachedBlockId s)))"
proof -
  define s3 where "s3 = (let newAngles = lerpAngles (smoothAngles s) (desiredAngles s);
          s1 = s\<lparr>smoothAngles := newAngles, frameCount := frameCount s + 1\<rparr>;
          s2 = (if frameCount s1 mod 5 = 0
                then s1\<lparr>telemetryData :=
                       telemetryUpdater 40 (telemetryData s1)
                         (makeSample (frameCount s1) newAngles (prevAngles s1) delta
                            (truthy (attachedBlockId s)))\<rparr>
                else s1) in s2\<lparr>prevAngles := newAngles\<rparr>)"
  have t3: "telemetryData s3 =
     telemetryUpdater 40 (telemetryData s)
       (makeSample (frameCount s + 1) (lerpAngles (smoothAngles s) (desiredAngles s))
          (prevAngles s) delta (truthy (attachedBlockId s)))"
    using assms(2) by (simp add: s3_def Let_def)
  define s4 where "s4 = (if mode s = AUTO_PICK then autoPick delta s s3 else s3)"
  have t4: "telemetryData s4 = telemetryData s3"
    by (simp add: s4_def autoPick_fields)
  have fr: "frame delta s = (if mode s = REPLAY then replayStep delta s s4 else Inr s4)"
    by (simp add: frame_def s4_def s3_def Let_def)
  have "telemetryData s' = telemetryData s4"
  proof (cases "mode s = REPLAY")
    case True
    with fr assms(1) have "replayStep delta s s4 = Inr s'" by simp
    from replayStep_fields(1) [OF this] show ?thesis .
  next
    case False
    with fr assms(1) show ?thesis by simp
  qed
  with t4 t3 show ?thesis by simp
qed

lemma frame0_telemetry_sample:
  assumes "(frameCount0 s + 1) mod 5 = 0"
  shows "telemetryData0 (frame0 delta s) =
     telemetryUpdater 50 (telemetryData0 s)
       (makeSample (frameCount0 s + 1) (lerpAngles (smoothAngles0 s) (desiredAngles0 s))
          (prevAngles0 s) delta (hasBlock s))"
  using assms by (simp add: frame0_def Let_def autoSequence0_fields)

text \<open>
  Claim C8, amended. A frame that samples (every fifth) with elapsed time
  \<open>delta \<noteq> 0\<close> and finite shoulder angles appends a sample of finite numbers:
  velocity \<open>|\<Delta>shoulder / delta|\<close> and load \<open>|cos shoulder + payload|\<close>. Nothing is
  said for \<open>delta = 0\<close>, which the code does not guard.
\<close>

theorem telemetry_sample_finite:
  assumes "delta \<noteq> 0"
  shows "(\<forall>s s' a d p.
            shoulder (smoothAngles s) = Fin a \<and> shoulder (desiredAngles s) = Fin d \<and>
            shoulder (prevAngles s) = Fin p \<and> (frameCount s + 1) mod 5 = 0 \<and>
            frame delta s = Inr s' \<longrightarrow>
            telemetryData s' =
              telemetryUpdater 40 (telemetryData s)
                \<lparr>time = frameCount s + 1,
                 velocity = Fin \<bar>(a + (d - a) * (1 / 10) - p) / delta\<bar>,
                 torque = Fin \<bar>cos (a + (d - a) * (1 / 10)) +
                                (if truthy (attachedBlockId s) then 3 / 2 else 0)\<bar>\<rparr>) \<and>
         (\<forall>s a d p.
            shoulder (smoothAngles0 s) = Fin a \<and> shoulder (desiredAngles0 s) = Fin d \<and>
            shoulder (prevAngles0 s) = Fin p \<and> (frameCount0 s + 1) mod 5 = 0 \<longrightarrow>
            telemetryData0 (frame0 delta s) =
              telemetryUpdater 50 (telemetryData0 s)
                \<lparr>time = frameCount0 s + 1,
                 velocity = Fin \<bar>(a + (d - a) * (1 / 10) - p) / delta\<bar>,
                 torque = Fin \<bar>cos (a + (d - a) * (1 / 10)) +
                                (if hasBlock s then 3 / 2 else 0)\<bar>\<rparr>)"
proof (intro conjI allI impI)
  fix s s' :: controller and a d p :: real
  assume h: "shoulder (smoothAngles s) = Fin a \<and> shoulder (desiredAngles s) = Fin d \<and>
            shoulder (prevAngles s) = Fin p \<and> (frameCount s + 1) mod 5 = 0 \<and>
            frame delta s = Inr s'"
  then have fr: "frame delta s = Inr s'" and m: "(frameCount s + 1) mod 5 = 0" by simp_all
  have n: "shoulder (lerpAngles (smoothAngles s) (desiredAngles s)) = Fin (a + (d - a) * (1 / 10))"
    using h by (simp add: lerpAngles_shoulder)
  have p: "shoulder (prevAngles s) = Fin p" using h by simp
  show "telemetryData s' =
              telemetryUpdater 40 (telemetryData s)
                \<lparr>time = frameCount s + 1,
                 velocity = Fin \<bar>(a + (d - a) * (1 / 10) - p) / delta\<bar>,
                 torque = Fin \<bar>cos (a + (d - a) * (1 / 10)) +
                                (if truthy (attachedBlockId s) then 3 / 2 else 0)\<bar>\<rparr>"
    unfolding frame_telemetry_sample [OF fr m] makeSample_Fin [OF assms n p] ..
next
  fix s :: controller0 and a d p :: real
  assume h: "shoulder (smoothAngles0 s) = Fin a \<and> shoulder (desiredAngles0 s) = Fin d \<and>
            shoulder (prevAngles0 s) = Fin p \<and> (frameCount0 s + 1) mod 5 = 0"
  then have m: "(frameCount0 s + 1) mod 5 = 0" by simp
  have n: "shoulder (lerpAngles (smoothAngles0 s) (desiredAngles0 s)) = Fin (a + (d - a) * (1 / 10))"
    using h by (simp add: lerpAngles_shoulder)
  have p: "shoulder (prevAngles0 s) = Fin p" using h by simp
  show "telemetryData0 (frame0 delta s) =
              telemetryUpdater 50 (telemetryData0 s)
                \<lparr>time = frameCount0 s + 1,
                 velocity = Fin \<bar>(a + (d - a) * (1 / 10) - p) / delta\<bar>,
                 torque = Fin \<bar>cos (a + (d - a) * (1 / 10)) +
                                (if hasBlock s then 3 / 2 else 0)\<bar>\<rparr>"
    unfolding frame0_telemetry_sample [OF m] makeSample_Fin [OF assms n p] ..
qed

lemma five_frames_one:
  "run [Frame 1, Frame 1, Frame 1, Frame 1] init = Inr (init\<lparr>frameCount := 4\<rparr>)"
  by (simp add: frame_def init_def Let_def lerp_zero)

lemma five_frames0_one:
  "run0 [Frame0 1, Frame0 1, Frame0 1, Frame0 1] init0 = init0\<lparr>frameCount0 := 4\<rparr>"
  by (simp add: frame0_def init0_def Let_def lerp_zero)

theorem telemetry_sample_finite_witness:
  "(1::real) \<noteq> 0 \<and>
   run [Frame 1, Frame 1, Frame 1, Frame 1] init = Inr (init\<lparr>frameCount := 4\<rparr>) \<and>
   (\<exists>s'. frame 1 (init\<lparr>frameCount := 4\<rparr>) = Inr s' \<and>
         telemetryData s' = [\<lparr>time = 5, velocity = Fin 0, torque = Fin 1\<rparr>]) \<and>
   telemetryData0 (frame0 1 (init0\<lparr>frameCount0 := 4\<rparr>)) =
     [\<lparr>time = 5, velocity = Fin 0, torque = Fin 1\<rparr>]"
proof -
  have one: "(1::real) \<noteq> 0" by simp
  note t1 = telemetry_sample_finite [OF one, THEN conjunct1, rule_format]
  note t2 = telemetry_sample_finite [OF one, THEN conjunct2, rule_format]
  have fr: "frame 1 (init\<lparr>frameCount := 4\<rparr>) =
      Inr (init\<lparr>frameCount := 5,
                telemetryData := [\<lparr>time = 5, velocity = Fin 0, torque = Fin 1\<rparr>]\<rparr>)"
    by (simp add: frame_def init_def Let_def lerp_zero telemetryUpdater_def makeSample_def)
       (simp add: zeroAngles_def jsub_def)
  have a: "telemetryData (init\<lparr>frameCount := 5,
                telemetryData := [\<lparr>time = 5, velocity = Fin 0, torque = Fin 1\<rparr>]\<rparr>) =
      [\<lparr>time = 5, velocity = Fin 0, torque = Fin 1\<rparr>]"
    using t1 [of "init\<lparr>frameCount := 4\<rparr>" 0 0 0, OF conjI, OF _ conjI, OF _ _ conjI, OF _ _ _ conjI, OF _ _ _ _ fr]
    by (simp add: init_def zeroAngles_def)
  have b: "telemetryData0 (frame0 1 (init0\<lparr>frameCount0 := 4\<rparr>)) =
     [\<lparr>time = 5, velocity = Fin 0, torque = Fin 1\<rparr>]"
    using t2 [of "init0\<lparr>frameCount0 := 4\<rparr>" 0 0 0]
    by (simp add: init0_def zeroAngles_def telemetryUpdater_def)
  show ?thesis
    using one five_frames_one fr a b by simp
qed

text \<open>A target inside the inner limit, then five frames of one second each.\<close>

lemma poisoned_frames:
  "run [DragTarget (0, 1, 1 / 4), Frame 1, Frame 1, Frame 1, Frame 1, Frame 1] init =
     Inr (init\<lparr>ikTarget := (0, 1, 1 / 4),
                desiredAngles := \<lparr>base = Fin 0, shoulder = NaN, elbow = NaN\<rparr>,
                smoothAngles := \<lparr>base = Fin 0, shoulder = NaN, elbow = NaN\<rparr>,
                prevAngles := \<lparr>base = Fin 0, shoulder = NaN, elbow = NaN\<rparr>,
                frameCount := 5,
                telemetryData := [\<lparr>time = 5, velocity = NaN, torque = NaN\<rparr>]\<rparr>)"
  by (simp add: frame_def init_def Let_def handleTargetMove_def solveIK_inner lerpAngles_def
      lerp_NaN lerp_from_NaN telemetryUpdater_def makeSample_def zeroAngles_def lerp_Fin jsub_def)

text \<open>
  Claim C8 as stated fails. With elapsed time \<open>0\<close> on the fifth frame the velocity of the
  sample is \<open>0 / 0\<close>, NaN, in both controllers, and for a shoulder that moved it is
  infinite; it is not \<open>0\<close>. With a nonzero elapsed time the sample is NaN as well once
  the solver has returned a NaN shoulder.
\<close>

theorem telemetry_zero_delta_counterexample:
  "run [Frame 1, Frame 1, Frame 1, Frame 1, Frame 0] init =
     Inr (init\<lparr>frameCount := 5,
                telemetryData := [\<lparr>time = 5, velocity = NaN, torque = Fin 1\<rparr>]\<rparr>) \<and>
   run0 [Frame0 1, Frame0 1, Frame0 1, Frame0 1, Frame0 0] init0 =
     init0\<lparr>frameCount0 := 5,
            telemetryData0 := [\<lparr>time = 5, velocity = NaN, torque = Fin 1\<rparr>]\<rparr> \<and>
   velocity (makeSample 5 \<lparr>base = Fin 0, shoulder = Fin 1, elbow = Fin 0\<rparr> zeroAngles 0 False) = PInf \<and>
   NaN \<noteq> Fin 0 \<and> PInf \<noteq> Fin 0 \<and>
   map_sum id telemetryData
     (run [DragTarget (0, 1, 1 / 4), Frame 1, Frame 1, Frame 1, Frame 1, Frame 1] init) =
     Inr [\<lparr>time = 5, velocity = NaN, torque = NaN\<rparr>]"
proof -
  have "velocity (makeSample 5 \<lparr>base = Fin 0, shoulder = Fin 1, elbow = Fin 0\<rparr> zeroAngles 0 False) = PInf"
    by (simp add: makeSample_def zeroAngles_def jsub_def)
  moreover have "map_sum id telemetryData
     (run [DragTarget (0, 1, 1 / 4), Frame 1, Frame 1, Frame 1, Frame 1, Frame 1] init) =
     Inr [\<lparr>time = 5, velocity = NaN, torque = NaN\<rparr>]"
    unfolding poisoned_frames by (simp add: init_def)
  ultimately show ?thesis
    using five_frames five_frames0 by simp
qed

section \<open>Proofs: replay\<close>

lemma frame_replay:
  assumes "mode s = REPLAY"
  shows "frame delta s =
     replayStep delta s
       (let newAngles = lerpAngles (smoothAngles s) (desiredAngles s);
            s1 = s\<lparr>smoothAngles := newAngles, frameCount := frameCount s + 1\<rparr>;
            s2 = (if frameCount s1 mod 5 = 0
                  then s1\<lparr>telemetryData :=
                         telemetryUpdater 40 (telemetryData s1)
                           (makeSample (frameCount s1) newAngles (prevAngles s1) delta
                              (truthy (attachedBlockId s)))\<rparr>
                  else s1)
        in s2\<lparr>prevAngles := newAngles\<rparr>)"
  using assms by (simp add: frame_def Let_def)

lemma replayStep_advance:
  assumes "mode s0 = REPLAY" and "waypoints s0 = waypoints snap"
    and "replayIndex s0 = replayIndex snap"
    and "1 \<le> length (waypoints snap)" and "replayIndex snap < length (waypoints snap)"
  shows "\<exists>s'. replayStep delta snap s0 = Inr s' \<and> mode s' = REPLAY \<and>
           waypoints s' = waypoints snap \<and>
           replayIndex s' = (if arrived snap then (replayIndex snap + 1) mod length (waypoints snap)
                             else replayIndex snap)"
proof -
  have ne: "waypoints snap \<noteq> []" using assms(5) by auto
  show ?thesis
    using assms ne by (simp add: replayStep_def Let_def arrived_def)
qed

lemma frame_advance:
  assumes "mode s = REPLAY" and "1 \<le> length (waypoints s)"
    and "replayIndex s < length (waypoints s)"
  shows "\<exists>s'. frame delta s = Inr s' \<and> mode s' = REPLAY \<and> waypoints s' = waypoints s \<and>
           replayIndex s' = (if arrived s then (replayIndex s + 1) mod length (waypoints s)
                             else replayIndex s)"
  unfolding frame_replay [OF assms(1)]
  by (rule replayStep_advance) (use assms in \<open>simp_all add: Let_def\<close>)

lemma frames_advance:
  assumes "mode s = REPLAY" and "1 \<le> length (waypoints s)"
    and "replayIndex s < length (waypoints s)"
  shows "\<exists>s'. run (map Frame deltas) s = Inr s' \<and> mode s' = REPLAY \<and>
           waypoints s' = waypoints s \<and>
           replayIndex s' = (replayIndex s + arrivals deltas s) mod length (waypoints s)"
  using assms
proof (induction deltas arbitrary: s)
  case Nil
  then show ?case by simp
next
  case (Cons delta deltas)
  from frame_advance [OF Cons.prems, of delta]
  obtain s1 where s1: "frame delta s = Inr s1" "mode s1 = REPLAY" "waypoints s1 = waypoints s"
    "replayIndex s1 = (if arrived s then (replayIndex s + 1) mod length (waypoints s)
                       else replayIndex s)"
    by blast
  have pos: "0 < length (waypoints s)"
    using Cons.prems(3) by (cases "waypoints s") simp_all
  have idx: "replayIndex s1 < length (waypoints s1)"
    using s1 Cons.prems pos by simp
  have len: "1 \<le> length (waypoints s1)"
    using s1 Cons.prems by simp
  from Cons.IH [OF s1(2) len idx]
  obtain s' where s': "run (map Frame deltas) s1 = Inr s'" "mode s' = REPLAY"
    "waypoints s' = waypoints s1"
    "replayIndex s' = (replayIndex s1 + arrivals deltas s1) mod length (waypoints s1)"
    by blast
  have "replayIndex s' = (replayIndex s + arrivals (delta # deltas) s) mod length (waypoints s)"
    using s'(4) s1 by (simp add: mod_add_left_eq add.assoc [symmetric])
  with s' s1 show ?case by simp
qed

lemma frame_empty_program:
  assumes "mode s = REPLAY" and "waypoints s = []"
  shows "\<exists>s'. frame delta s = Inr s' \<and> mode s' = MANUAL \<and> ikTarget s' = ikTarget s \<and>
           desiredAngles s' = desiredAngles s \<and> replayIndex s' = replayIndex s \<and>
           isGripping s' = isGripping s \<and> attachedBlockId s' = attachedBlockId s \<and>
           waypoints s' = []"
  unfolding frame_replay [OF assms(1)]
  using assms by (simp add: replayStep_def Let_def)

text \<open>
  A move toward a destination at distance \<open>D > 0\<close> by a step \<open>v\<close> ends at distance
  \<open>|D - v|\<close>; at distance \<open>0\<close> the direction is the zero vector and the target stays.
\<close>

lemma distanceTo_vlength: "distanceTo t w = vlength (subVectors w t)"
proof -
  obtain tx ty tz where t: "t = (tx, ty, tz)" by (cases t) auto
  obtain wx wy wz where w: "w = (wx, wy, wz)" by (cases w) auto
  have "(tx - wx) * (tx - wx) = (wx - tx) * (wx - tx)"
       "(ty - wy) * (ty - wy) = (wy - ty) * (wy - ty)"
       "(tz - wz) * (tz - wz) = (wz - tz) * (wz - tz)"
    by (simp_all add: algebra_simps)
  then show ?thesis
    by (simp add: t w distanceTo_def vlength_def subVectors_def)
qed

lemma move_distance:
  assumes "0 < distanceTo t w"
  shows "distanceTo (vadd t (multiplyScalar (normalize (subVectors w t)) v)) w
         = \<bar>distanceTo t w - v\<bar>"
proof -
  obtain tx ty tz where t: "t = (tx, ty, tz)" by (cases t) auto
  obtain wx wy wz where w: "w = (wx, wy, wz)" by (cases w) auto
  define a where "a = wx - tx"
  define b where "b = wy - ty"
  define c where "c = wz - tz"
  define L where "L = sqrt (a * a + b * b + c * c)"
  have dL: "distanceTo t w = L"
    by (simp add: distanceTo_vlength t w subVectors_def vlength_def L_def a_def b_def c_def)
  have Lpos: "0 < L" using assms dL by simp
  have LL: "L * L = a * a + b * b + c * c"
    unfolding L_def by (simp add: add_nonneg_nonneg)
  define k where "k = 1 - v / L"
  have comp: "tx + a * v / L - wx = - (a * k)" "ty + b * v / L - wy = - (b * k)"
    "tz + c * v / L - wz = - (c * k)"
    using Lpos by (simp_all add: k_def a_def b_def c_def field_simps)
  have "distanceTo (vadd t (multiplyScalar (normalize (subVectors w t)) v)) w
      = sqrt ((a * k) * (a * k) + (b * k) * (b * k) + (c * k) * (c * k))"
    using Lpos
    by (simp add: t w distanceTo_def vadd_def multiplyScalar_def normalize_def subVectors_def
        vlength_def Let_def L_def [symmetric] a_def [symmetric] b_def [symmetric]
        c_def [symmetric] comp)
  also have "(a * k) * (a * k) + (b * k) * (b * k) + (c * k) * (c * k)
      = (k * L) * (k * L)"
  proof -
    have "(a * k) * (a * k) + (b * k) * (b * k) + (c * k) * (c * k)
        = (a * a + b * b + c * c) * (k * k)"
      by (simp add: algebra_simps)
    also have "\<dots> = (L * L) * (k * k)"
      by (simp only: LL)
    also have "\<dots> = (k * L) * (k * L)"
      by (simp add: algebra_simps)
    finally show ?thesis .
  qed
  also have "sqrt ((k * L) * (k * L)) = \<bar>k * L\<bar>"
    by simp
  also have "k * L = L - v"
    using Lpos by (simp add: k_def field_simps)
  finally show ?thesis by (simp add: dL)
qed

lemma move_distance_zero:
  assumes "distanceTo t w = 0"
  shows "vadd t (multiplyScalar (normalize (subVectors w t)) v) = t"
proof -
  obtain tx ty tz where t: "t = (tx, ty, tz)" by (cases t) auto
  obtain wx wy wz where w: "w = (wx, wy, wz)" by (cases w) auto
  have z: "vlength (subVectors w t) = 0"
    using assms by (simp add: distanceTo_vlength)
  then have "(wx - tx) * (wx - tx) + (wy - ty) * (wy - ty) + (wz - tz) * (wz - tz) = 0"
    by (simp add: t w vlength_def subVectors_def)
  then have "wx - tx = 0 \<and> wy - ty = 0 \<and> wz - tz = 0"
    by (smt (verit) zero_le_square mult_eq_0_iff)
  then show ?thesis
    using z by (simp add: t w vadd_def multiplyScalar_def normalize_def subVectors_def Let_def)
qed

text \<open>
  With frames of one duration \<open>0 < delta < 0.05\<close> the step \<open>4 * delta\<close> is below \<open>0.2\<close>,
  twice the threshold: a target outside the threshold gets closer by the step, or lands
  within the threshold, so every waypoint is reached.
\<close>

lemma tryGrabClosest_ikTarget [simp]: "ikTarget (tryGrabClosest snap s) = ikTarget s"
  by (simp add: tryGrabClosest_def Let_def)

lemma moveTowards_ikTarget [simp]:
  "ikTarget (moveTowards dest v snap s) =
     vadd (ikTarget snap) (multiplyScalar (normalize (subVectors dest (ikTarget snap))) v)"
  by (simp add: moveTowards_def Let_def)

lemma replayStep_target:
  assumes "replayStep delta snap s0 = Inr s'"
    and "replayIndex snap < length (waypoints snap)"
  shows "ikTarget s' =
     vadd (ikTarget snap)
       (multiplyScalar
          (normalize (subVectors (pos (waypoints snap ! replayIndex snap)) (ikTarget snap)))
          (4 * delta))"
proof -
  have ne: "waypoints snap \<noteq> []" using assms(2) by auto
  show ?thesis
    using assms ne by (auto simp: replayStep_def Let_def split: if_splits)
qed

lemma frame_target:
  assumes "mode s = REPLAY" and "replayIndex s < length (waypoints s)"
    and "frame delta s = Inr s'"
  shows "ikTarget s' =
     vadd (ikTarget s)
       (multiplyScalar
          (normalize (subVectors (pos (waypoints s ! replayIndex s)) (ikTarget s)))
          (4 * delta))"
  using assms(3) unfolding frame_replay [OF assms(1)]
  by (rule replayStep_target) (rule assms(2))

lemma remaining_nonneg: "0 \<le> remaining s"
  by (simp add: remaining_def distanceTo_vlength vlength_def split: prod.splits)

lemma arrived_remaining: "arrived s \<longleftrightarrow> remaining s < 1 / 10"
  by (simp add: arrived_def remaining_def)

lemma frame_not_arrived:
  assumes "mode s = REPLAY" and "1 \<le> length (waypoints s)"
    and "replayIndex s < length (waypoints s)" and "\<not> arrived s"
  shows "\<exists>s'. frame delta s = Inr s' \<and> mode s' = REPLAY \<and> waypoints s' = waypoints s \<and>
           replayIndex s' = replayIndex s \<and> remaining s' = \<bar>remaining s - 4 * delta\<bar>"
proof -
  from frame_advance [OF assms(1-3), of delta] assms(4)
  obtain s' where s': "frame delta s = Inr s'" "mode s' = REPLAY" "waypoints s' = waypoints s"
    "replayIndex s' = replayIndex s"
    by auto
  have pos: "0 < remaining s"
    using assms(4) remaining_nonneg [of s] by (simp add: arrived_remaining)
  have "remaining s' = \<bar>remaining s - 4 * delta\<bar>"
    unfolding remaining_def s'(3,4) frame_target [OF assms(1,3) s'(1)]
    using pos by (simp add: move_distance remaining_def)
  with s' show ?thesis by blast
qed

lemma reach_waypoint:
  assumes v: "0 < delta" "delta < 1 / 20"
  shows "mode s = REPLAY \<Longrightarrow> 1 \<le> length (waypoints s) \<Longrightarrow>
         replayIndex s < length (waypoints s) \<Longrightarrow> remaining s \<le> real m * (4 * delta) \<Longrightarrow>
         \<exists>n s'. run (replicate n (Frame delta)) s = Inr s' \<and> mode s' = REPLAY \<and>
           waypoints s' = waypoints s \<and> replayIndex s' = replayIndex s \<and> arrived s'"
proof (induction m arbitrary: s)
  case 0
  then have "remaining s = 0"
    using remaining_nonneg [of s] by simp
  then have "arrived s" by (simp add: arrived_remaining)
  then have "run (replicate 0 (Frame delta)) s = Inr s \<and> mode s = REPLAY \<and>
           waypoints s = waypoints s \<and> replayIndex s = replayIndex s \<and> arrived s"
    using "0.prems" by simp
  then show ?case by blast
next
  case (Suc m)
  show ?case
  proof (cases "arrived s")
    case True
    then have "run (replicate 0 (Frame delta)) s = Inr s \<and> mode s = REPLAY \<and>
           waypoints s = waypoints s \<and> replayIndex s = replayIndex s \<and> arrived s"
      using Suc.prems by simp
    then show ?thesis by blast
  next
    case False
    from frame_not_arrived [OF Suc.prems(1-3) False, of delta]
    obtain s1 where s1: "frame delta s = Inr s1" "mode s1 = REPLAY"
      "waypoints s1 = waypoints s" "replayIndex s1 = replayIndex s"
      "remaining s1 = \<bar>remaining s - 4 * delta\<bar>"
      by blast
    have far: "1 / 10 \<le> remaining s"
      using False by (simp add: arrived_remaining)
    have valid1: "1 \<le> length (waypoints s1)" "replayIndex s1 < length (waypoints s1)"
      using s1 Suc.prems by simp_all
    show ?thesis
    proof (cases "4 * delta \<le> remaining s")
      case True
      then have "remaining s1 = remaining s - 4 * delta"
        using s1(5) by simp
      also have "\<dots> \<le> real m * (4 * delta)"
        using Suc.prems(4) by (simp add: algebra_simps)
      finally have "remaining s1 \<le> real m * (4 * delta)" .
      from Suc.IH [OF s1(2) valid1 this]
      obtain n s' where s': "run (replicate n (Frame delta)) s1 = Inr s'" "mode s' = REPLAY"
        "waypoints s' = waypoints s1" "replayIndex s' = replayIndex s1" "arrived s'"
        by blast
      have "run (replicate (Suc n) (Frame delta)) s = Inr s'"
        using s1(1) s'(1) by simp
      with s' s1 show ?thesis by metis
    next
      case False
      then have "remaining s1 = 4 * delta - remaining s"
        using s1(5) by simp
      then have "remaining s1 < 1 / 10"
        using far v by simp
      then have a1: "arrived s1" by (simp add: arrived_remaining)
      have "run (replicate (Suc 0) (Frame delta)) s = Inr s1"
        using s1(1) by simp
      with s1 a1 show ?thesis by metis
    qed
  qed
qed

lemma run_append:
  "run (xs @ ys) s = (case run xs s of Inl e \<Rightarrow> Inl e | Inr s' \<Rightarrow> run ys s')"
  by (induction xs arbitrary: s) (simp_all split: sum.splits)

lemma next_waypoint:
  assumes v: "0 < delta" "delta < 1 / 20"
    and "mode s = REPLAY" and "1 \<le> length (waypoints s)"
    and "replayIndex s < length (waypoints s)"
  shows "\<exists>n s'. run (replicate n (Frame delta)) s = Inr s' \<and> mode s' = REPLAY \<and>
           waypoints s' = waypoints s \<and>
           replayIndex s' = (replayIndex s + 1) mod length (waypoints s)"
proof -
  have dpos: "0 < 4 * delta" using v by simp
  obtain m :: nat where "remaining s / (4 * delta) \<le> real m"
    using real_arch_simple by blast
  then have "remaining s \<le> real m * (4 * delta)"
    using dpos by (simp add: pos_divide_le_eq)
  from reach_waypoint [OF v assms(3-5) this]
  obtain n s1 where s1: "run (replicate n (Frame delta)) s = Inr s1" "mode s1 = REPLAY"
    "waypoints s1 = waypoints s" "replayIndex s1 = replayIndex s" "arrived s1"
    by blast
  have valid1: "1 \<le> length (waypoints s1)" "replayIndex s1 < length (waypoints s1)"
    using s1 assms by simp_all
  from frame_advance [OF s1(2) valid1, of delta] s1(5)
  obtain s' where s': "frame delta s1 = Inr s'" "mode s' = REPLAY" "waypoints s' = waypoints s1"
    "replayIndex s' = (replayIndex s1 + 1) mod length (waypoints s1)"
    by auto
  have "run (replicate n (Frame delta) @ [Frame delta]) s = Inr s'"
    unfolding run_append using s1(1) s'(1) by simp
  then have "run (replicate (Suc n) (Frame delta)) s = Inr s'"
    by (simp add: replicate_append_same)
  with s' s1 show ?thesis by metis
qed

lemma tour_forever:
  assumes v: "0 < delta" "delta < 1 / 20"
    and "mode s = REPLAY" and "1 \<le> length (waypoints s)"
    and "replayIndex s < length (waypoints s)"
  shows "\<exists>n s'. run (replicate n (Frame delta)) s = Inr s' \<and> mode s' = REPLAY \<and>
           waypoints s' = waypoints s \<and>
           replayIndex s' = (replayIndex s + j) mod length (waypoints s)"
proof (induction j)
  case 0
  have "run (replicate 0 (Frame delta)) s = Inr s" by simp
  with assms show ?case
    by (metis add.right_neutral mod_less)
next
  case (Suc j)
  then obtain n s1 where s1: "run (replicate n (Frame delta)) s = Inr s1" "mode s1 = REPLAY"
    "waypoints s1 = waypoints s"
    "replayIndex s1 = (replayIndex s + j) mod length (waypoints s)"
    by blast
  have pos: "0 < length (waypoints s)"
    using assms(5) by (cases "waypoints s") simp_all
  have valid1: "1 \<le> length (waypoints s1)" "replayIndex s1 < length (waypoints s1)"
  proof -
    show "1 \<le> length (waypoints s1)"
      using assms(4) by (simp only: s1(3))
    show "replayIndex s1 < length (waypoints s1)"
      unfolding s1(3,4) using pos by (rule mod_less_divisor)
  qed
  from next_waypoint [OF v s1(2) valid1]
  obtain n' s' where s': "run (replicate n' (Frame delta)) s1 = Inr s'" "mode s' = REPLAY"
    "waypoints s' = waypoints s1"
    "replayIndex s' = (replayIndex s1 + 1) mod length (waypoints s1)"
    by blast
  have "run (replicate n (Frame delta) @ replicate n' (Frame delta)) s = Inr s'"
    unfolding run_append using s1(1) s'(1) by simp
  then have r: "run (replicate (n + n') (Frame delta)) s = Inr s'"
    by (simp only: replicate_add)
  have "replayIndex s' = (replayIndex s + Suc j) mod length (waypoints s)"
    using s'(4) s1(3,4) by (simp add: mod_Suc_eq)
  with r s' s1 show ?case by metis
qed

text \<open>
  Claim C5. In replay mode with a program of length \<open>k \<ge> 1\<close> and an index below \<open>k\<close>, a
  frame keeps the mode and the program and moves the index to \<open>(index + 1) mod k\<close> when
  the target is within \<open>0.1\<close> of the current waypoint, and leaves it otherwise; over any
  run of frames the index is the start index plus the number of arrivals, modulo \<open>k\<close>, and
  the mode stays \<open>REPLAY\<close>. With an empty program a frame in replay mode sets the mode to
  \<open>MANUAL\<close> and moves nothing, and \<open>toggleReplay\<close> outside replay mode changes nothing;
  with a program it enters replay at index \<open>0\<close>. With frames of one duration below
  \<open>0.05\<close> every waypoint is reached: for every \<open>j\<close> some number of frames brings the index
  to the start index plus \<open>j\<close>, modulo \<open>k\<close>.
\<close>

theorem replay_cyclic_tour:
  "(mode s = REPLAY \<and> 1 \<le> length (waypoints s) \<and> replayIndex s < length (waypoints s) \<longrightarrow>
      (\<exists>s'. frame delta s = Inr s' \<and> mode s' = REPLAY \<and> waypoints s' = waypoints s \<and>
            replayIndex s' =
              (if distanceTo (ikTarget s) (pos (waypoints s ! replayIndex s)) < 1 / 10
               then (replayIndex s + 1) mod length (waypoints s) else replayIndex s)) \<and>
      (\<exists>s'. run (map Frame deltas) s = Inr s' \<and> mode s' = REPLAY \<and>
            waypoints s' = waypoints s \<and>
            replayIndex s' = (replayIndex s + arrivals deltas s) mod length (waypoints s))) \<and>
   (mode s = REPLAY \<and> waypoints s = [] \<longrightarrow>
      (\<exists>s'. frame delta s = Inr s' \<and> mode s' = MANUAL \<and> ikTarget s' = ikTarget s \<and>
            desiredAngles s' = desiredAngles s \<and> replayIndex s' = replayIndex s \<and>
            isGripping s' = isGripping s \<and> attachedBlockId s' = attachedBlockId s \<and>
            waypoints s' = [])) \<and>
   (mode s \<noteq> REPLAY \<and> waypoints s = [] \<longrightarrow> toggleReplay s = s \<and> step ClickPlay s = Inr s) \<and>
   (mode s \<noteq> REPLAY \<and> waypoints s \<noteq> [] \<longrightarrow>
      toggleReplay s = s\<lparr>mode := REPLAY, replayIndex := 0\<rparr>) \<and>
   (mode s = REPLAY \<and> 1 \<le> length (waypoints s) \<and> replayIndex s < length (waypoints s) \<and>
    0 < delta \<and> delta < 1 / 20 \<longrightarrow>
      (\<forall>j. \<exists>n s'. run (replicate n (Frame delta)) s = Inr s' \<and> mode s' = REPLAY \<and>
            waypoints s' = waypoints s \<and>
            replayIndex s' = (replayIndex s + j) mod length (waypoints s)))"
proof (intro conjI impI allI)
  assume h: "mode s = REPLAY \<and> 1 \<le> length (waypoints s) \<and> replayIndex s < length (waypoints s)"
  from h frame_advance [of s delta]
  show "\<exists>s'. frame delta s = Inr s' \<and> mode s' = REPLAY \<and> waypoints s' = waypoints s \<and>
            replayIndex s' =
              (if distanceTo (ikTarget s) (pos (waypoints s ! replayIndex s)) < 1 / 10
               then (replayIndex s + 1) mod length (waypoints s) else replayIndex s)"
    by (simp only: arrived_def)
  from h frames_advance [of s deltas]
  show "\<exists>s'. run (map Frame deltas) s = Inr s' \<and> mode s' = REPLAY \<and>
            waypoints s' = waypoints s \<and>
            replayIndex s' = (replayIndex s + arrivals deltas s) mod length (waypoints s)"
    by blast
next
  assume "mode s = REPLAY \<and> waypoints s = []"
  then show "\<exists>s'. frame delta s = Inr s' \<and> mode s' = MANUAL \<and> ikTarget s' = ikTarget s \<and>
            desiredAngles s' = desiredAngles s \<and> replayIndex s' = replayIndex s \<and>
            isGripping s' = isGripping s \<and> attachedBlockId s' = attachedBlockId s \<and>
            waypoints s' = []"
    using frame_empty_program [of s delta] by blast
next
  assume "mode s \<noteq> REPLAY \<and> waypoints s = []"
  then show "toggleReplay s = s" "step ClickPlay s = Inr s"
    by (simp_all add: toggleReplay_def)
next
  assume "mode s \<noteq> REPLAY \<and> waypoints s \<noteq> []"
  then show "toggleReplay s = s\<lparr>mode := REPLAY, replayIndex := 0\<rparr>"
    by (simp add: toggleReplay_def)
next
  fix j
  assume h: "mode s = REPLAY \<and> 1 \<le> length (waypoints s) \<and>
    replayIndex s < length (waypoints s) \<and> 0 < delta \<and> delta < 1 / 20"
  then have v: "0 < delta" "delta < 1 / 20" and m: "mode s = REPLAY"
    and k: "1 \<le> length (waypoints s)" and i: "replayIndex s < length (waypoints s)"
    by simp_all
  show "\<exists>n s'. run (replicate n (Frame delta)) s = Inr s' \<and> mode s' = REPLAY \<and>
            waypoints s' = waypoints s \<and>
            replayIndex s' = (replayIndex s + j) mod length (waypoints s)"
    by (rule tour_forever [OF v m k i])
qed

lemma at_last_waypoint:
  "distanceTo (2, 3, 2) (2, 3, 2) < 1 / 10"
  by (subst distanceTo_less_iff; simp)

theorem replay_cyclic_tour_witness:
  "(\<exists>s'. frame (1 / 60)
           (init\<lparr>ikTarget := (2, 3, 2),
                 waypoints := [\<lparr>pos = (2, 2, 2), grip = False\<rparr>, \<lparr>pos = (2, 3, 2), grip = False\<rparr>],
                 mode := REPLAY, replayIndex := 1\<rparr>) = Inr s' \<and>
         mode s' = REPLAY \<and> replayIndex s' = 0) \<and>
   (\<exists>s'. run (map Frame [1 / 60])
           (init\<lparr>ikTarget := (2, 3, 2),
                 waypoints := [\<lparr>pos = (2, 2, 2), grip = False\<rparr>, \<lparr>pos = (2, 3, 2), grip = False\<rparr>],
                 mode := REPLAY, replayIndex := 1\<rparr>) = Inr s' \<and>
         mode s' = REPLAY \<and> replayIndex s' = 0) \<and>
   (\<exists>s'. frame (1 / 60) (init\<lparr>mode := REPLAY\<rparr>) = Inr s' \<and> mode s' = MANUAL \<and>
         ikTarget s' = (2, 2, 2)) \<and>
   toggleReplay init = init \<and>
   toggleReplay (init\<lparr>waypoints := [\<lparr>pos = (2, 2, 2), grip = False\<rparr>]\<rparr>) =
     init\<lparr>waypoints := [\<lparr>pos = (2, 2, 2), grip = False\<rparr>], mode := REPLAY, replayIndex := 0\<rparr> \<and>
   (\<exists>n s'. run (replicate n (Frame (1 / 60)))
           (init\<lparr>ikTarget := (2, 3, 2),
                 waypoints := [\<lparr>pos = (2, 2, 2), grip = False\<rparr>, \<lparr>pos = (2, 3, 2), grip = False\<rparr>],
                 mode := REPLAY, replayIndex := 1\<rparr>) = Inr s' \<and>
         mode s' = REPLAY \<and> replayIndex s' = 0)"
proof -
  define w where "w = init\<lparr>ikTarget := (2, 3, 2),
                 waypoints := [\<lparr>pos = (2, 2, 2), grip = False\<rparr>, \<lparr>pos = (2, 3, 2), grip = False\<rparr>],
                 mode := REPLAY, replayIndex := 1\<rparr>"
  have hw: "mode w = REPLAY \<and> 1 \<le> length (waypoints w) \<and> replayIndex w < length (waypoints w)"
    by (simp add: w_def)
  have arr: "arrived w"
    using at_last_waypoint by (simp add: arrived_def w_def init_def)
  note t = replay_cyclic_tour [of w "1 / 60" "[1 / 60]", THEN conjunct1, rule_format, OF hw]
  from t [THEN conjunct1] arr
  obtain s1 where s1: "frame (1 / 60) w = Inr s1" "mode s1 = REPLAY" "replayIndex s1 = 0"
    by (auto simp: arrived_def w_def)
  have n: "arrivals [1 / 60] w = 1"
    using s1(1) arr by simp
  from t [THEN conjunct2]
  obtain s2 where s2: "run (map Frame [1 / 60]) w = Inr s2" "mode s2 = REPLAY" "replayIndex s2 = 0"
    unfolding n by (auto simp: w_def)
  have he: "mode (init\<lparr>mode := REPLAY\<rparr>) = REPLAY \<and> waypoints (init\<lparr>mode := REPLAY\<rparr>) = []"
    by (simp add: init_def)
  from replay_cyclic_tour [of "init\<lparr>mode := REPLAY\<rparr>" "1 / 60" "[]",
      THEN conjunct2, THEN conjunct1, rule_format, OF he]
  obtain s3 where s3: "frame (1 / 60) (init\<lparr>mode := REPLAY\<rparr>) = Inr s3" "mode s3 = MANUAL"
    "ikTarget s3 = (2, 2, 2)"
    by (auto simp: init_def)
  have hi: "mode init \<noteq> REPLAY \<and> waypoints init = []"
    by (simp add: init_def)
  note t4 = replay_cyclic_tour [of init 0 "[]",
      THEN conjunct2, THEN conjunct2, THEN conjunct1, rule_format, OF hi, THEN conjunct1]
  have hr: "mode (init\<lparr>waypoints := [\<lparr>pos = (2, 2, 2), grip = False\<rparr>]\<rparr>) \<noteq> REPLAY \<and>
            waypoints (init\<lparr>waypoints := [\<lparr>pos = (2, 2, 2), grip = False\<rparr>]\<rparr>) \<noteq> []"
    by (simp add: init_def)
  note t5 = replay_cyclic_tour [of "init\<lparr>waypoints := [\<lparr>pos = (2, 2, 2), grip = False\<rparr>]\<rparr>" 0 "[]",
      THEN conjunct2, THEN conjunct2, THEN conjunct2, THEN conjunct1, rule_format, OF hr]
  have hl: "mode w = REPLAY \<and> 1 \<le> length (waypoints w) \<and> replayIndex w < length (waypoints w) \<and>
            0 < (1 / 60 :: real) \<and> (1 / 60 :: real) < 1 / 20"
    by (simp add: w_def)
  from replay_cyclic_tour [of w "1 / 60" "[]",
      THEN conjunct2, THEN conjunct2, THEN conjunct2, THEN conjunct2, rule_format, OF hl, of 3]
  obtain n s6 where s6: "run (replicate n (Frame (1 / 60))) w = Inr s6" "mode s6 = REPLAY"
    "replayIndex s6 = (replayIndex w + 3) mod length (waypoints w)"
    by blast
  have "length (waypoints w) = 2" "replayIndex w = 1"
    by (simp_all add: w_def)
  then have "(replayIndex w + 3) mod length (waypoints w) = 0"
    by simp
  with s6 have s6': "replayIndex s6 = 0"
    by simp
  have e: "\<exists>n s'. run (replicate n (Frame (1 / 60))) w = Inr s' \<and> mode s' = REPLAY \<and>
        replayIndex s' = 0"
    using s6(1,2) s6' by blast
  have a: "\<exists>s'. frame (1 / 60) w = Inr s' \<and> mode s' = REPLAY \<and> replayIndex s' = 0"
    using s1 by blast
  have b: "\<exists>s'. run (map Frame [1 / 60]) w = Inr s' \<and> mode s' = REPLAY \<and> replayIndex s' = 0"
    using s2 by blast
  have c: "\<exists>s'. frame (1 / 60) (init\<lparr>mode := REPLAY\<rparr>) = Inr s' \<and> mode s' = MANUAL \<and>
         ikTarget s' = (2, 2, 2)"
    using s3 by blast
  show ?thesis
    using a b c e t4 t5 unfolding w_def by simp
qed

section \<open>Proofs: smoothing over frames\<close>

text \<open>Nothing but the first step of a frame writes \<open>smoothAngles\<close>.\<close>

lemma handleTargetMove_smooth [simp]: "smoothAngles (handleTargetMove p s) = smoothAngles s"
  by (simp add: handleTargetMove_def split: prod.splits option.splits)

lemma moveTowards_smooth [simp]: "smoothAngles (moveTowards d v snap s) = smoothAngles s"
  by (simp add: moveTowards_def Let_def)

lemma tryGrabClosest_smooth [simp]:
  "smoothAngles (tryGrabClosest snap s) = smoothAngles s"
  "desiredAngles (tryGrabClosest snap s) = desiredAngles s"
  by (simp_all add: tryGrabClosest_def Let_def)

lemma autoSwitch_smooth:
  assumes "autoSwitch snap s = (d, np, s1)"
  shows "smoothAngles s1 = smoothAngles s"
  using assms
  by (auto simp: autoSwitch_def Let_def split: prod.splits phase.splits if_splits)

lemma autoPick_smooth: "smoothAngles (autoPick delta snap s) = smoothAngles s"
  by (auto simp: autoPick_def Let_def split: prod.splits dest: autoSwitch_smooth)

lemma replayStep_smooth:
  assumes "replayStep delta snap s = Inr s'"
  shows "smoothAngles s' = smoothAngles s"
  using assms by (auto simp: replayStep_def Let_def split: if_splits)

lemma frame_smooth:
  assumes "frame delta s = Inr s'"
  shows "smoothAngles s' = lerpAngles (smoothAngles s) (desiredAngles s)"
proof -
  define s3 where "s3 = (let newAngles = lerpAngles (smoothAngles s) (desiredAngles s);
          s1 = s\<lparr>smoothAngles := newAngles, frameCount := frameCount s + 1\<rparr>;
          s2 = (if frameCount s1 mod 5 = 0
                then s1\<lparr>telemetryData :=
                       telemetryUpdater 40 (telemetryData s1)
                         (makeSample (frameCount s1) newAngles (prevAngles s1) delta
                            (truthy (attachedBlockId s)))\<rparr>
                else s1) in s2\<lparr>prevAngles := newAngles\<rparr>)"
  have t3: "smoothAngles s3 = lerpAngles (smoothAngles s) (desiredAngles s)"
    by (simp add: s3_def Let_def)
  define s4 where "s4 = (if mode s = AUTO_PICK then autoPick delta s s3 else s3)"
  have t4: "smoothAngles s4 = smoothAngles s3"
    by (simp add: s4_def autoPick_smooth)
  have fr: "frame delta s = (if mode s = REPLAY then replayStep delta s s4 else Inr s4)"
    by (simp add: frame_def s4_def s3_def Let_def)
  have "smoothAngles s' = smoothAngles s4"
  proof (cases "mode s = REPLAY")
    case True
    with fr assms have "replayStep delta s s4 = Inr s'" by simp
    from replayStep_smooth [OF this] show ?thesis .
  next
    case False
    with fr assms show ?thesis by simp
  qed
  with t4 t3 show ?thesis by simp
qed

lemma frame_manual:
  assumes "mode s = MANUAL"
  shows "\<exists>s'. frame delta s = Inr s' \<and> mode s' = MANUAL \<and> desiredAngles s' = desiredAngles s"
  using assms by (simp add: frame_def Let_def)

lemma handleTargetMove0_smooth [simp]: "smoothAngles0 (handleTargetMove0 p s) = smoothAngles0 s"
  by (simp add: handleTargetMove0_def split: prod.splits option.splits)

lemma autoSwitch0_smooth:
  assumes "autoSwitch0 snap s = (d, np, s1)"
  shows "smoothAngles0 s1 = smoothAngles0 s"
  using assms
  by (auto simp: autoSwitch0_def Let_def split: prod.splits phase.splits if_splits)

lemma autoSequence0_smooth: "smoothAngles0 (autoSequence0 delta snap s) = smoothAngles0 s"
  by (auto simp: autoSequence0_def Let_def split: prod.splits dest: autoSwitch0_smooth)

lemma frame0_smooth:
  "smoothAngles0 (frame0 delta s) = lerpAngles (smoothAngles0 s) (desiredAngles0 s)"
  by (simp add: frame0_def Let_def autoSequence0_smooth)

lemma frame0_idle:
  assumes "autoPhase0 s = IDLE"
  shows "autoPhase0 (frame0 delta s) = IDLE \<and> desiredAngles0 (frame0 delta s) = desiredAngles0 s"
  using assms by (simp add: frame0_def Let_def)

lemma joint_lerpAngles:
  assumes "j = base \<or> j = shoulder \<or> j = elbow"
  shows "j (lerpAngles sm de) = lerp (j sm) (j de) (Fin (1 / 10))"
  using assms by (auto simp: lerpAngles_def)

lemma smooth_step:
  fixes u d :: real
  defines "v \<equiv> u + (d - u) * (1 / 10)"
  shows "((u \<le> v \<and> v \<le> d) \<or> (d \<le> v \<and> v \<le> u)) \<and> \<bar>d - v\<bar> = (9 / 10) * \<bar>d - u\<bar>"
proof -
  have between: "(u \<le> v \<and> v \<le> d) \<or> (d \<le> v \<and> v \<le> u)"
    unfolding v_def by argo
  have "d - v = (9 / 10) * (d - u)"
    unfolding v_def by argo
  then have "\<bar>d - v\<bar> = \<bar>9 / 10\<bar> * \<bar>d - u\<bar>"
    by (simp only: abs_mult)
  then have "\<bar>d - v\<bar> = (9 / 10) * \<bar>d - u\<bar>"
    by simp
  with between show ?thesis by blast
qed

lemma closed_form_tick:
  fixes a d :: real
  shows "d + (a + (d - a) * (1 / 10) - d) * (9 / 10) ^ n = d + (a - d) * (9 / 10) ^ Suc n"
proof -
  have "a + (d - a) * (1 / 10) - d = (a - d) * (9 / 10)"
    by argo
  then show ?thesis
    by (simp only: power_Suc mult.assoc)
qed

lemma step_smooth:
  assumes "step ev s = Inr s'"
  shows "smoothAngles s' =
     (case ev of Frame delta \<Rightarrow> lerpAngles (smoothAngles s) (desiredAngles s)
      | _ \<Rightarrow> smoothAngles s)"
proof (cases ev)
  case (Frame delta)
  with assms show ?thesis by (simp add: frame_smooth)
qed (use assms in \<open>auto simp: toggleGripper_def handleReset_def recordWaypoint_def
      toggleReplay_def split: if_splits\<close>)

lemma step0_smooth:
  "smoothAngles0 (step0 ev s) =
     (case ev of Frame0 delta \<Rightarrow> lerpAngles (smoothAngles0 s) (desiredAngles0 s)
      | _ \<Rightarrow> smoothAngles0 s)"
  by (cases ev) (simp_all add: frame0_smooth startAutoSequence_def toggleGripper0_def)

lemma joint_frame_step:
  assumes j: "j = base \<or> j = shoulder \<or> j = elbow"
    and "j sm = Fin u" and "j de = Fin d"
  shows "j (lerpAngles sm de) = Fin (u + (d - u) * (1 / 10))"
  using assms(2,3) by (simp add: joint_lerpAngles [OF j] lerp_Fin)

lemma run_smooth:
  assumes j: "j = base \<or> j = shoulder \<or> j = elbow"
  shows "desiredHeld j d evs s \<Longrightarrow> j (smoothAngles s) = Fin a \<Longrightarrow>
         \<exists>s'. run evs s = Inr s' \<and> j (smoothAngles s') = Fin (d + (a - d) * (9 / 10) ^ ticks evs)"
proof (induction evs arbitrary: s a)
  case Nil
  then show ?case by simp
next
  case (Cons ev evs)
  from Cons.prems(1) obtain s1 where s1: "step ev s = Inr s1" "desiredHeld j d evs s1"
    and de: "j (desiredAngles s) = Fin d"
    by (auto split: sum.splits)
  show ?case
  proof (cases "\<exists>delta. ev = Frame delta")
    case True
    then obtain delta where ev: "ev = Frame delta" by blast
    have "j (smoothAngles s1) = Fin (a + (d - a) * (1 / 10))"
      using step_smooth [OF s1(1)] joint_frame_step [OF j Cons.prems(2) de] by (simp add: ev)
    from Cons.IH [OF s1(2) this]
    obtain s' where s': "run evs s1 = Inr s'"
      "j (smoothAngles s') = Fin (d + (a + (d - a) * (1 / 10) - d) * (9 / 10) ^ ticks evs)"
      by blast
    have "d + (a + (d - a) * (1 / 10) - d) * (9 / 10) ^ ticks evs
        = d + (a - d) * (9 / 10) ^ Suc (ticks evs)"
      by (rule closed_form_tick)
    with s' s1(1) show ?thesis by (simp add: ev)
  next
    case False
    then have tk: "ticks (ev # evs) = ticks evs"
      by (cases ev) simp_all
    have "smoothAngles s1 = smoothAngles s"
      using step_smooth [OF s1(1)] False by (cases ev) simp_all
    then have "j (smoothAngles s1) = Fin a"
      using Cons.prems(2) by simp
    from Cons.IH [OF s1(2) this] s1(1) show ?thesis
      by (simp add: tk)
  qed
qed

lemma run0_smooth:
  assumes j: "j = base \<or> j = shoulder \<or> j = elbow"
  shows "desiredHeld0 j d evs s \<Longrightarrow> j (smoothAngles0 s) = Fin a \<Longrightarrow>
         j (smoothAngles0 (run0 evs s)) = Fin (d + (a - d) * (9 / 10) ^ ticks0 evs)"
proof (induction evs arbitrary: s a)
  case Nil
  then show ?case by simp
next
  case (Cons ev evs)
  from Cons.prems(1) have h: "desiredHeld0 j d evs (step0 ev s)"
    and de: "j (desiredAngles0 s) = Fin d"
    by simp_all
  show ?case
  proof (cases "\<exists>delta. ev = Frame0 delta")
    case True
    then obtain delta where ev: "ev = Frame0 delta" by blast
    have "j (smoothAngles0 (step0 ev s)) = Fin (a + (d - a) * (1 / 10))"
      using joint_frame_step [OF j Cons.prems(2) de] by (simp add: ev frame0_smooth)
    from Cons.IH [OF h this]
    have "j (smoothAngles0 (run0 evs (step0 ev s))) =
        Fin (d + (a + (d - a) * (1 / 10) - d) * (9 / 10) ^ ticks0 evs)" .
    moreover have "d + (a + (d - a) * (1 / 10) - d) * (9 / 10) ^ ticks0 evs
        = d + (a - d) * (9 / 10) ^ Suc (ticks0 evs)"
      by (rule closed_form_tick)
    ultimately show ?thesis by (simp add: ev)
  next
    case False
    then have tk: "ticks0 (ev # evs) = ticks0 evs"
      by (cases ev) simp_all
    have "smoothAngles0 (step0 ev s) = smoothAngles0 s"
      using step0_smooth [of ev s] False by (cases ev) simp_all
    then have "j (smoothAngles0 (step0 ev s)) = Fin a"
      using Cons.prems(2) by simp
    from Cons.IH [OF h this] show ?thesis
      by (simp add: tk)
  qed
qed

lemma manual_desiredHeld:
  "mode s = MANUAL \<Longrightarrow> j (desiredAngles s) = Fin d \<Longrightarrow>
   \<forall>ev \<in> set evs. (\<exists>delta. ev = Frame delta) \<or> (\<exists>b p. ev = PosUpdate b p) \<Longrightarrow>
   desiredHeld j d evs s"
proof (induction evs arbitrary: s)
  case Nil
  show ?case by simp
next
  case (Cons ev evs)
  from Cons.prems(3) consider delta where "ev = Frame delta" | b p where "ev = PosUpdate b p"
    by auto
  then show ?case
  proof cases
    case 1
    from frame_manual [OF Cons.prems(1), of delta]
    obtain s1 where s1: "frame delta s = Inr s1" "mode s1 = MANUAL"
      "desiredAngles s1 = desiredAngles s"
      by blast
    have "desiredHeld j d evs s1"
      using Cons.IH [of s1] s1 Cons.prems by simp
    then show ?thesis
      using 1 s1(1) Cons.prems(2) by simp
  next
    case 2
    have "desiredHeld j d evs (if b \<in> set INITIAL_BLOCKS
          then s\<lparr>blockPositions := mapSet b p (blockPositions s)\<rparr> else s)"
      using Cons.IH [of "if b \<in> set INITIAL_BLOCKS
          then s\<lparr>blockPositions := mapSet b p (blockPositions s)\<rparr> else s"] Cons.prems
      by simp
    then show ?thesis
      using 2 Cons.prems(2) by simp
  qed
qed

lemma idle_desiredHeld0:
  "autoPhase0 s = IDLE \<Longrightarrow> j (desiredAngles0 s) = Fin d \<Longrightarrow>
   \<forall>ev \<in> set evs. (\<exists>delta. ev = Frame0 delta) \<or> (\<exists>p. ev = OnRest p) \<Longrightarrow>
   desiredHeld0 j d evs s"
proof (induction evs arbitrary: s)
  case Nil
  show ?case by simp
next
  case (Cons ev evs)
  from Cons.prems(3) consider delta where "ev = Frame0 delta" | p where "ev = OnRest p"
    by auto
  then show ?case
  proof cases
    case 1
    have "desiredHeld0 j d evs (frame0 delta s)"
      using Cons.IH [of "frame0 delta s"] frame0_idle [OF Cons.prems(1), of delta] Cons.prems
      by simp
    then show ?thesis
      using 1 Cons.prems(2) by simp
  next
    case 2
    have "desiredHeld0 j d evs (s\<lparr>blockPosRef := p\<rparr>)"
      using Cons.IH [of "s\<lparr>blockPosRef := p\<rparr>"] Cons.prems by simp
    then show ?thesis
      using 2 Cons.prems(2) by simp
  qed
qed

text \<open>
  Claim C3, amended. Every frame, in each controller and in every mode, replaces each
  joint of \<open>smoothAngles\<close> by \<open>lerp\<close> of it and the desired angle with speed \<open>0.1\<close>. For a
  finite actual angle \<open>u\<close> and a finite desired angle \<open>d\<close> the next angle is
  \<open>u + (d - u) * 0.1\<close>: it lies between \<open>u\<close> and \<open>d\<close> (no overshoot) and the absolute error
  is \<open>0.9\<close> times the one before. Over any run of events before each of which the desired
  angle of the joint is \<open>d\<close>, a joint that starts at the finite angle \<open>a\<close> ends at
  \<open>d + (a - d) * 0.9 ^ n\<close>, with \<open>n\<close> the number of frames of the run; the desired angle is
  held so in manual mode (phase \<open>IDLE\<close> in \<open>part_000\<close>) while only frames and position
  reports happen; and that sequence converges to \<open>d\<close>.
\<close>

theorem smoothing_converges:
  assumes j: "j = base \<or> j = shoulder \<or> j = elbow"
  shows
  "(\<forall>delta s s' u d.
      frame delta s = Inr s' \<and> j (smoothAngles s) = Fin u \<and> j (desiredAngles s) = Fin d \<longrightarrow>
      (\<exists>v. j (smoothAngles s') = Fin v \<and> v = u + (d - u) * (1 / 10) \<and>
           ((u \<le> v \<and> v \<le> d) \<or> (d \<le> v \<and> v \<le> u)) \<and>
           \<bar>d - v\<bar> = (9 / 10) * \<bar>d - u\<bar>)) \<and>
   (\<forall>delta s u d.
      j (smoothAngles0 s) = Fin u \<and> j (desiredAngles0 s) = Fin d \<longrightarrow>
      (\<exists>v. j (smoothAngles0 (frame0 delta s)) = Fin v \<and> v = u + (d - u) * (1 / 10) \<and>
           ((u \<le> v \<and> v \<le> d) \<or> (d \<le> v \<and> v \<le> u)) \<and>
           \<bar>d - v\<bar> = (9 / 10) * \<bar>d - u\<bar>)) \<and>
   (\<forall>evs s a d.
      desiredHeld j d evs s \<and> j (smoothAngles s) = Fin a \<longrightarrow>
      (\<exists>s'. run evs s = Inr s' \<and>
            j (smoothAngles s') = Fin (d + (a - d) * (9 / 10) ^ ticks evs))) \<and>
   (\<forall>evs s a d.
      desiredHeld0 j d evs s \<and> j (smoothAngles0 s) = Fin a \<longrightarrow>
      j (smoothAngles0 (run0 evs s)) = Fin (d + (a - d) * (9 / 10) ^ ticks0 evs)) \<and>
   (\<forall>evs s d.
      mode s = MANUAL \<and> j (desiredAngles s) = Fin d \<and>
      (\<forall>ev \<in> set evs. (\<exists>delta. ev = Frame delta) \<or> (\<exists>b p. ev = PosUpdate b p)) \<longrightarrow>
      desiredHeld j d evs s) \<and>
   (\<forall>evs s d.
      autoPhase0 s = IDLE \<and> j (desiredAngles0 s) = Fin d \<and>
      (\<forall>ev \<in> set evs. (\<exists>delta. ev = Frame0 delta) \<or> (\<exists>p. ev = OnRest p)) \<longrightarrow>
      desiredHeld0 j d evs s) \<and>
   (\<forall>a d :: real. (\<lambda>n. d + (a - d) * (9 / 10) ^ n) \<longlonglongrightarrow> d)"
proof (intro conjI allI impI)
  fix delta and s s' :: controller and u d :: real
  assume h: "frame delta s = Inr s' \<and> j (smoothAngles s) = Fin u \<and> j (desiredAngles s) = Fin d"
  then have fr: "frame delta s = Inr s'"
    by simp
  have "smoothAngles s' = lerpAngles (smoothAngles s) (desiredAngles s)"
    by (rule frame_smooth [OF fr])
  then have "j (smoothAngles s') = Fin (u + (d - u) * (1 / 10))"
    using h joint_frame_step [OF j, of "smoothAngles s" u "desiredAngles s" d] by simp
  then show "\<exists>v. j (smoothAngles s') = Fin v \<and> v = u + (d - u) * (1 / 10) \<and>
           ((u \<le> v \<and> v \<le> d) \<or> (d \<le> v \<and> v \<le> u)) \<and>
           \<bar>d - v\<bar> = (9 / 10) * \<bar>d - u\<bar>"
    using smooth_step [of u d] by blast
next
  fix delta and s :: controller0 and u d :: real
  assume h: "j (smoothAngles0 s) = Fin u \<and> j (desiredAngles0 s) = Fin d"
  then have "j (smoothAngles0 (frame0 delta s)) = Fin (u + (d - u) * (1 / 10))"
    using joint_frame_step [OF j, of "smoothAngles0 s" u "desiredAngles0 s" d]
    by (simp add: frame0_smooth)
  then show "\<exists>v. j (smoothAngles0 (frame0 delta s)) = Fin v \<and> v = u + (d - u) * (1 / 10) \<and>
           ((u \<le> v \<and> v \<le> d) \<or> (d \<le> v \<and> v \<le> u)) \<and>
           \<bar>d - v\<bar> = (9 / 10) * \<bar>d - u\<bar>"
    using smooth_step [of u d] by blast
next
  fix evs and s :: controller and a d :: real
  assume "desiredHeld j d evs s \<and> j (smoothAngles s) = Fin a"
  then show "\<exists>s'. run evs s = Inr s' \<and>
            j (smoothAngles s') = Fin (d + (a - d) * (9 / 10) ^ ticks evs)"
    using run_smooth [OF j, of d evs s a] by blast
next
  fix evs and s :: controller0 and a d :: real
  assume "desiredHeld0 j d evs s \<and> j (smoothAngles0 s) = Fin a"
  then show "j (smoothAngles0 (run0 evs s)) = Fin (d + (a - d) * (9 / 10) ^ ticks0 evs)"
    using run0_smooth [OF j, of d evs s a] by blast
next
  fix evs and s :: controller and d :: real
  assume "mode s = MANUAL \<and> j (desiredAngles s) = Fin d \<and>
      (\<forall>ev \<in> set evs. (\<exists>delta. ev = Frame delta) \<or> (\<exists>b p. ev = PosUpdate b p))"
  then show "desiredHeld j d evs s"
    using manual_desiredHeld [of s j d evs] by blast
next
  fix evs and s :: controller0 and d :: real
  assume "autoPhase0 s = IDLE \<and> j (desiredAngles0 s) = Fin d \<and>
      (\<forall>ev \<in> set evs. (\<exists>delta. ev = Frame0 delta) \<or> (\<exists>p. ev = OnRest p))"
  then show "desiredHeld0 j d evs s"
    using idle_desiredHeld0 [of s j d evs] by blast
next
  fix a d :: real
  show "(\<lambda>n. d + (a - d) * (9 / 10) ^ n) \<longlonglongrightarrow> d"
    by (rule smooth_limit)
qed

lemma solveIK_stretched:
  "solveIK 0 1 (11 / 2) = Some \<lparr>base = Fin 0, shoulder = Fin (pi / 2), elbow = Fin 0\<rparr>"
proof -
  have sq: "sqrt (121 / 4) = 11 / 2"
    by (rule real_sqrt_unique) (simp_all add: power2_eq_square)
  show ?thesis
    by (simp add: solveIK_def Let_def L1_def L2_def L3_def atan2_def jsub_def sq)
qed

lemma stretched_fields:
  "mode stretched = MANUAL" "shoulder (desiredAngles stretched) = Fin (pi / 2)"
  "shoulder (smoothAngles stretched) = Fin 0"
  by (simp_all add: stretched_def handleTargetMove_def solveIK_stretched init_def zeroAngles_def)

lemma stretched0_fields:
  "autoPhase0 stretched0 = IDLE" "shoulder (desiredAngles0 stretched0) = Fin (pi / 2)"
  "shoulder (smoothAngles0 stretched0) = Fin 0"
  by (simp_all add: stretched0_def handleTargetMove0_def solveIK_stretched init0_def zeroAngles_def)

theorem smoothing_converges_witness:
  "run [DragTarget (0, 1, 11 / 2)] init = Inr stretched \<and>
   shoulder (desiredAngles stretched) = Fin (pi / 2) \<and>
   shoulder (smoothAngles stretched) = Fin 0 \<and>
   desiredHeld shoulder (pi / 2) [Frame 1, PosUpdate 1 (4, 1, 4), Frame 1] stretched \<and>
   (\<exists>s'. run [Frame 1, PosUpdate 1 (4, 1, 4), Frame 1] stretched = Inr s' \<and>
         shoulder (smoothAngles s') = Fin (pi / 2 + (0 - pi / 2) * (9 / 10) ^ 2)) \<and>
   (\<exists>s' v. frame 1 stretched = Inr s' \<and> shoulder (smoothAngles s') = Fin v \<and>
         v = pi / 20 \<and> 0 \<le> v \<and> v \<le> pi / 2) \<and>
   step0 (DragTarget0 (0, 1, 11 / 2)) init0 = stretched0 \<and>
   shoulder (smoothAngles0 (run0 [Frame0 1, OnRest (4, 1, 4), Frame0 1] stretched0)) =
     Fin (pi / 2 + (0 - pi / 2) * (9 / 10) ^ 2)"
proof -
  have j: "shoulder = base \<or> shoulder = shoulder \<or> shoulder = elbow"
    by simp
  note t = smoothing_converges [OF j]
  note t1 = t [THEN conjunct1, rule_format]
  note t3 = t [THEN conjunct2, THEN conjunct2, THEN conjunct1, rule_format]
  note t4 = t [THEN conjunct2, THEN conjunct2, THEN conjunct2, THEN conjunct1, rule_format]
  note t5 = t [THEN conjunct2, THEN conjunct2, THEN conjunct2, THEN conjunct2, THEN conjunct1,
      rule_format]
  note t6 = t [THEN conjunct2, THEN conjunct2, THEN conjunct2, THEN conjunct2, THEN conjunct2,
      THEN conjunct1, rule_format]
  have r: "run [DragTarget (0, 1, 11 / 2)] init = Inr stretched"
    by (simp add: stretched_def init_def)
  have held: "desiredHeld shoulder (pi / 2)
      [Frame 1, PosUpdate 1 (4, 1, 4), Frame 1] stretched"
    by (rule t5) (simp add: stretched_fields)
  have a: "\<exists>s'. run [Frame 1, PosUpdate 1 (4, 1, 4), Frame 1] stretched = Inr s' \<and>
         shoulder (smoothAngles s') = Fin (pi / 2 + (0 - pi / 2) * (9 / 10) ^ 2)"
    using t3 [of "pi / 2" "[Frame 1, PosUpdate 1 (4, 1, 4), Frame 1]" stretched 0]
      held stretched_fields(3)
    by (simp only: ticks.simps) (simp add: numeral_2_eq_2)
  from frame_manual [OF stretched_fields(1), of "1"]
  obtain s1 where s1: "frame 1 stretched = Inr s1" by blast
  from t1 [of "1" stretched s1 0 "pi / 2"] s1 stretched_fields
  obtain v where v: "shoulder (smoothAngles s1) = Fin v" "v = 0 + (pi / 2 - 0) * (1 / 10)"
    by blast
  have b: "\<exists>s' v. frame 1 stretched = Inr s' \<and> shoulder (smoothAngles s') = Fin v \<and>
         v = pi / 20 \<and> 0 \<le> v \<and> v \<le> pi / 2"
  proof -
    have v': "v = pi / 20" using v(2) by simp
    have "0 \<le> pi / 20" "pi / 20 \<le> pi / 2"
      using pi_ge_zero by simp_all
    with s1 v(1) v' show ?thesis by blast
  qed
  have r0: "step0 (DragTarget0 (0, 1, 11 / 2)) init0 = stretched0"
    by (simp add: stretched0_def init0_def)
  have held0: "desiredHeld0 shoulder (pi / 2)
      [Frame0 1, OnRest (4, 1, 4), Frame0 1] stretched0"
    by (rule t6) (simp add: stretched0_fields)
  have c: "shoulder (smoothAngles0 (run0 [Frame0 1, OnRest (4, 1, 4), Frame0 1] stretched0)) =
     Fin (pi / 2 + (0 - pi / 2) * (9 / 10) ^ 2)"
    using t4 [of "pi / 2" "[Frame0 1, OnRest (4, 1, 4), Frame0 1]" stretched0 0]
      held0 stretched0_fields(3)
    by (simp only: ticks0.simps) (simp add: numeral_2_eq_2)
  show ?thesis
    by (intro conjI r stretched_fields(2,3) held a b r0 c)
qed

lemma poisoned_one:
  "run [DragTarget (0, 1, 1 / 4), Frame 1] init =
     Inr (init\<lparr>ikTarget := (0, 1, 1 / 4),
                desiredAngles := \<lparr>base = Fin 0, shoulder = NaN, elbow = NaN\<rparr>,
                smoothAngles := \<lparr>base = Fin 0, shoulder = NaN, elbow = NaN\<rparr>,
                prevAngles := \<lparr>base = Fin 0, shoulder = NaN, elbow = NaN\<rparr>,
                frameCount := 1\<rparr>)"
  by (simp add: frame_def init_def Let_def handleTargetMove_def solveIK_inner lerpAngles_def
      lerp_NaN lerp_from_NaN zeroAngles_def lerp_Fin)

text \<open>
  Claim C3 as stated, for every angle, fails: once the target has been dragged to
  \<open>(0, 1, 0.25)\<close> the desired shoulder angle is NaN and stays NaN, and from the first frame
  on the smoothed shoulder angle is NaN; it approaches nothing.
\<close>

theorem smoothing_nan_counterexample:
  "map_sum id (shoulder \<circ> desiredAngles) (run [DragTarget (0, 1, 1 / 4)] init) = Inr NaN \<and>
   map_sum id (shoulder \<circ> smoothAngles) (run [DragTarget (0, 1, 1 / 4)] init) = Inr (Fin 0) \<and>
   map_sum id (shoulder \<circ> smoothAngles) (run [DragTarget (0, 1, 1 / 4), Frame 1] init) = Inr NaN \<and>
   map_sum id (shoulder \<circ> smoothAngles)
     (run [DragTarget (0, 1, 1 / 4), Frame 1, Frame 1, Frame 1, Frame 1, Frame 1] init) = Inr NaN \<and>
   map_sum id (shoulder \<circ> desiredAngles)
     (run [DragTarget (0, 1, 1 / 4), Frame 1, Frame 1, Frame 1, Frame 1, Frame 1] init) = Inr NaN \<and>
   lerp (Fin 0) NaN (Fin (1 / 10)) = NaN \<and> lerp NaN NaN (Fin (1 / 10)) = NaN"
proof -
  have a: "run [DragTarget (0, 1, 1 / 4)] init =
      Inr (init\<lparr>ikTarget := (0, 1, 1 / 4),
                desiredAngles := \<lparr>base = Fin 0, shoulder = NaN, elbow = NaN\<rparr>\<rparr>)"
    by (simp add: init_def handleTargetMove_def solveIK_inner)
  show ?thesis
    unfolding a poisoned_one poisoned_frames
    by (simp add: init_def zeroAngles_def lerp_NaN)
qed

end
